theory Spec2Isabelle
  imports Main "HOL-Library.Product_Lexorder"
begin

text \<open>
  The message pipeline of the TransChat front end: the presentation grouper, the
  subscription callback and the read-state effects of \<open>ChatWindow.tsx\<close>, and the chat
  list aggregator of the chat list component. Pure code is a function; a service of the
  backend is a parameter whose promise may reject; the component is a state machine whose
  events are renders with changed dependencies, handler calls, resolved promises and
  deliveries of the message stream. Code that waits at an \<open>await\<close> is two events, the
  call and its resumption, and other events may come between them.
\<close>

section \<open>Data model\<close>

text \<open>
  A JavaScript \<open>Date\<close> is modelled by what its local getters return: the calendar
  fields read by \<open>isSameDay\<close> and the time elapsed since local midnight. Only valid dates
  are modelled (the getters of an invalid date return NaN, which is not an integer).
\<close>

record Date =
  getFullYear :: int
  getMonth :: int
  getDate :: int
  getTimeOfDay :: int

text \<open>
  The fields of \<open>Message\<close> that the two components read. An optional field of the
  TypeScript interface is an \<open>option\<close>.
\<close>

record Message =
  id_msg :: string
  senderId :: string
  originalText :: "string option"
  translatedText :: "string option"
  mediaType :: "string option"
  timestamp :: Date

text \<open>
  The elements of \<open>messagesWithSeparators\<close>: the objects \<open>{type: 'date', data}\<close>,
  \<open>{type: 'unread', data: null}\<close> and \<open>{type: 'message', data}\<close>.
\<close>

datatype item = DateItem Date | UnreadItem | MessageItem Message

section \<open>The presentation grouper of ChatWindow\<close>

definition isSameDay :: "Date \<Rightarrow> Date \<Rightarrow> bool" where
  "isSameDay date1 date2 \<longleftrightarrow>
     getFullYear date1 = getFullYear date2 \<and>
     getMonth date1 = getMonth date2 \<and>
     getDate date1 = getDate date2"

text \<open>
  The body of the \<open>forEach\<close> callback. The state threaded through the iterations is the
  array \<open>messagesWithSeparators\<close> and the flag \<open>unreadSeparatorAdded\<close>. The read
  \<open>messages[index - 1]\<close> happens for \<open>0 < index < length messages\<close> only.
\<close>

definition forEach_body ::
  "Message list \<Rightarrow> string set \<Rightarrow> item list \<times> bool \<Rightarrow> nat \<Rightarrow> item list \<times> bool" where
  "forEach_body messages unreadMessageIds st index =
     (let message = messages ! index;
          messagesWithSeparators = fst st;
          unreadSeparatorAdded = snd st;
          withDate =
            (if index = 0 then messagesWithSeparators @ [DateItem (timestamp message)]
             else
               let previousMessage = messages ! (index - 1) in
               if \<not> isSameDay (timestamp previousMessage) (timestamp message)
               then messagesWithSeparators @ [DateItem (timestamp message)]
               else messagesWithSeparators);
          withUnread =
            (if id_msg message \<in> unreadMessageIds \<and> \<not> unreadSeparatorAdded
             then (withDate @ [UnreadItem], True)
             else (withDate, unreadSeparatorAdded))
      in (fst withUnread @ [MessageItem message], snd withUnread))"

definition forEach_messages ::
  "Message list \<Rightarrow> string set \<Rightarrow> item list \<times> bool \<Rightarrow> item list \<times> bool" where
  "forEach_messages messages unreadMessageIds st =
     foldl (forEach_body messages unreadMessageIds) st [0..<length messages]"

text \<open>
  One call of the function, with its two variables made explicit: \<open>before\<close> is what
  they hold when the call begins (what an earlier call left behind, if anything could
  survive a call), and the result is what they hold when it returns, the first of them
  being the returned array. The two declarations that open the body assign them anew.
\<close>

definition getMessagesWithDateSeparators_call ::
  "item list \<times> bool \<Rightarrow> Message list \<Rightarrow> string set \<Rightarrow> item list \<times> bool" where
  "getMessagesWithDateSeparators_call before messages unreadMessageIds =
     (let messagesWithSeparators = [];
          unreadSeparatorAdded = False
      in forEach_messages messages unreadMessageIds
           (messagesWithSeparators, unreadSeparatorAdded))"

definition getMessagesWithDateSeparators :: "Message list \<Rightarrow> string set \<Rightarrow> item list" where
  "getMessagesWithDateSeparators messages unreadMessageIds =
     fst (getMessagesWithDateSeparators_call ([], False) messages unreadMessageIds)"

text \<open>Notions used to state the properties of the display sequence.\<close>

definition messagesOf :: "item list \<Rightarrow> Message list" where
  "messagesOf items = concat (map (\<lambda>x. case x of MessageItem m \<Rightarrow> [m] | _ \<Rightarrow> []) items)"

definition datesOf :: "item list \<Rightarrow> Date list" where
  "datesOf items = concat (map (\<lambda>x. case x of DateItem d \<Rightarrow> [d] | _ \<Rightarrow> []) items)"

definition calendarDay :: "Date \<Rightarrow> int \<times> int \<times> int" where
  "calendarDay d = (getFullYear d, getMonth d, getDate d)"

text \<open>
  The instant of a date, compared as the backend orders timestamps: by calendar day, then
  by the time within the day.
\<close>

definition instant :: "Date \<Rightarrow> (int \<times> int \<times> int) \<times> int" where
  "instant d = (calendarDay d, getTimeOfDay d)"

definition timestampOrdered :: "Message list \<Rightarrow> bool" where
  "timestampOrdered messages = sorted (map (\<lambda>m. instant (timestamp m)) messages)"

text \<open>
  The display sequence as section 4.5 of the specification words it, with nothing carried
  from one message to the next: for each message, a date marker if it is the first
  message or its calendar day differs from that of the message before it, the unread
  marker if it is the first message whose id is in the unread set, and the message.
\<close>

definition presentationSpec :: "Message list \<Rightarrow> string set \<Rightarrow> item list" where
  "presentationSpec ms unread =
     concat (map
       (\<lambda>i. (if i = 0 \<or> calendarDay (timestamp (ms ! (i - 1))) \<noteq> calendarDay (timestamp (ms ! i))
             then [DateItem (timestamp (ms ! i))] else [])
            @ (if i = length (takeWhile (\<lambda>m. id_msg m \<notin> unread) ms) then [UnreadItem] else [])
            @ [MessageItem (ms ! i)])
       [0..<length ms])"

text \<open>
  What one iteration of the loop appends, given the previous message (if any) and the
  value of the flag: used to describe the output, not part of the program.
\<close>

definition block :: "Message option \<Rightarrow> bool \<Rightarrow> string set \<Rightarrow> Message \<Rightarrow> item list" where
  "block prev added unread m =
     (case prev of None \<Rightarrow> [DateItem (timestamp m)]
      | Some p \<Rightarrow> if isSameDay (timestamp p) (timestamp m) then [] else [DateItem (timestamp m)])
     @ (if id_msg m \<in> unread \<and> \<not> added then [UnreadItem] else [])
     @ [MessageItem m]"

section \<open>Promises and external services\<close>

text \<open>
  The settled outcome of an awaited promise. The services of the repository that the
  components call (\<open>translateText\<close>, \<open>getUser\<close>, \<open>hasChatMessages\<close>,
  \<open>getUnreadCount\<close>) are parameters of the model; each of them may reject.
\<close>

datatype 'a promise = Rejected | Resolved 'a

fun Promise_all :: "'a promise list \<Rightarrow> 'a list promise" where
  "Promise_all [] = Resolved []"
| "Promise_all (p # ps) =
     (case p of
        Rejected \<Rightarrow> Rejected
      | Resolved x \<Rightarrow>
          (case Promise_all ps of Rejected \<Rightarrow> Rejected | Resolved xs \<Rightarrow> Resolved (x # xs)))"

record User =
  uid :: string
  displayName :: string
  blockList :: "string list option"

section \<open>The Deletion Ledger\<close>

text \<open>
  Modelled from the spec: the module \<open>services/deletionService\<close> (functions
  \<open>addLocalDeletedMessage\<close>, \<open>isMessageLocallyDeleted\<close>, \<open>getDeletedMessagesForChat\<close>)
  is imported by ChatWindow and is not among the sources. Following the contract of the
  Deletion Ledger, it is a store of message ids keyed by chat id: recording is idempotent
  and never expires, the membership test is pure, and \<open>getDeletedMessagesForChat\<close>
  returns the set recorded for the chat.
\<close>

type_synonym DeletionLedger = "string \<Rightarrow> string set"

definition addLocalDeletedMessage :: "string \<Rightarrow> string \<Rightarrow> DeletionLedger \<Rightarrow> DeletionLedger" where
  "addLocalDeletedMessage chat messageId ledger = ledger (chat := insert messageId (ledger chat))"

definition isMessageLocallyDeleted :: "DeletionLedger \<Rightarrow> string \<Rightarrow> string \<Rightarrow> bool" where
  "isMessageLocallyDeleted ledger chat messageId \<longleftrightarrow> messageId \<in> ledger chat"

definition getDeletedMessagesForChat :: "DeletionLedger \<Rightarrow> string \<Rightarrow> string set" where
  "getDeletedMessagesForChat ledger chat = ledger chat"

section \<open>The subscription callback of ChatWindow\<close>

text \<open>JavaScript truthiness of an optional string: defined and not empty.\<close>

definition truthy :: "string option \<Rightarrow> bool" where
  "truthy s = (case s of None \<Rightarrow> False | Some t \<Rightarrow> t \<noteq> [])"

text \<open>The function mapped over \<open>filteredMessages\<close> in the translation branch.\<close>

definition translateMessage ::
  "(string \<Rightarrow> string \<Rightarrow> string promise) \<Rightarrow> User \<Rightarrow> string \<Rightarrow> Message \<Rightarrow> Message promise" where
  "translateMessage translateText user language msg =
     (case originalText msg of
        None \<Rightarrow> Resolved msg
      | Some text \<Rightarrow>
          if senderId msg \<noteq> uid user \<and> text \<noteq> [] then
            (case translateText text language of
               Rejected \<Rightarrow> Rejected
             | Resolved translated \<Rightarrow> Resolved (msg\<lparr>translatedText := Some translated\<rparr>))
          else Resolved msg)"

definition keepMessage :: "string set \<Rightarrow> string set \<Rightarrow> Message \<Rightarrow> bool" where
  "keepMessage deletedLocally blocked msg \<longleftrightarrow>
     id_msg msg \<notin> deletedLocally \<and> senderId msg \<notin> blocked"

text \<open>
  The callback given to \<open>getChatMessages\<close>. Its result is the argument of
  \<open>setMessages\<close>; when a translation rejects, the callback rejects before
  \<open>setMessages\<close> and nothing is published.
\<close>

definition onMessages ::
  "(string \<Rightarrow> string \<Rightarrow> string promise) \<Rightarrow> string set \<Rightarrow> string set \<Rightarrow> bool \<Rightarrow> User option \<Rightarrow>
     string \<Rightarrow> Message list \<Rightarrow> Message list promise" where
  "onMessages translateText deletedLocally blocked enabled user language fetchedMessages =
     (let filteredMessages = filter (keepMessage deletedLocally blocked) fetchedMessages in
      case user of
        None \<Rightarrow> Resolved filteredMessages
      | Some u \<Rightarrow>
          if enabled
          then Promise_all (map (translateMessage translateText u language) filteredMessages)
          else Resolved filteredMessages)"

section \<open>The chat list aggregator of ChatList\<close>

record Chat =
  id_chat :: string
  participants :: "string list"
  lastMessage :: string
  lastMessageTime :: Date
  deletedAt :: "Date option"

record ChatWithUser = Chat +
  otherUser :: User
  unreadCount :: "nat option"

text \<open>
  The function mapped over \<open>fetchedChats\<close>: \<open>None\<close> is the \<open>null\<close> it returns for
  a chat that is not listed. The test \<open>!otherUserId\<close> also holds for an empty id.
\<close>

definition enrichChat ::
  "(string \<Rightarrow> User option promise) \<Rightarrow> (string \<Rightarrow> bool promise) \<Rightarrow> (string \<Rightarrow> string \<Rightarrow> nat promise) \<Rightarrow>
     User \<Rightarrow> Chat \<Rightarrow> ChatWithUser option promise" where
  "enrichChat getUser hasChatMessages getUnreadCount user chat =
     (if deletedAt chat \<noteq> None then Resolved None
      else
        (case find (\<lambda>i. i \<noteq> uid user) (participants chat) of
           None \<Rightarrow> Resolved None
         | Some otherUserId \<Rightarrow>
             if otherUserId = [] then Resolved None
             else
               (case getUser otherUserId of
                  Rejected \<Rightarrow> Rejected
                | Resolved None \<Rightarrow> Resolved None
                | Resolved (Some other) \<Rightarrow>
                    (case hasChatMessages (id_chat chat) of
                       Rejected \<Rightarrow> Rejected
                     | Resolved hasMessages \<Rightarrow>
                         if \<not> hasMessages then Resolved None
                         else
                           (case getUnreadCount (id_chat chat) (uid user) of
                              Rejected \<Rightarrow> Rejected
                            | Resolved count \<Rightarrow>
                                Resolved (Some
                                  \<lparr>id_chat = id_chat chat, participants = participants chat,
                                   lastMessage = lastMessage chat,
                                   lastMessageTime = lastMessageTime chat,
                                   deletedAt = deletedAt chat,
                                   otherUser = other, unreadCount = Some count\<rparr>))))))"

text \<open>
  The callback given to \<open>getUserChats\<close>: its result is the argument of \<open>setChats\<close>,
  and nothing is set when an enrichment rejects.
\<close>

definition onUserChats ::
  "(string \<Rightarrow> User option promise) \<Rightarrow> (string \<Rightarrow> bool promise) \<Rightarrow> (string \<Rightarrow> string \<Rightarrow> nat promise) \<Rightarrow>
     User \<Rightarrow> Chat list \<Rightarrow> ChatWithUser list promise" where
  "onUserChats getUser hasChatMessages getUnreadCount user fetchedChats =
     (case Promise_all (map (enrichChat getUser hasChatMessages getUnreadCount user) fetchedChats) of
        Rejected \<Rightarrow> Rejected
      | Resolved chatsWithUsers \<Rightarrow> Resolved (List.map_filter (\<lambda>c. c) chatsWithUsers))"

text \<open>The chat underlying a list entry: the entry without the two added fields.\<close>

definition chatOf :: "ChatWithUser \<Rightarrow> Chat" where
  "chatOf e =
     \<lparr>id_chat = id_chat e, participants = participants e, lastMessage = lastMessage e,
      lastMessageTime = lastMessageTime e, deletedAt = deletedAt e\<rparr>"

text \<open>The gates a chat passes to be listed, as the callback tests them.\<close>

definition listable ::
  "(string \<Rightarrow> User option promise) \<Rightarrow> (string \<Rightarrow> bool promise) \<Rightarrow> User \<Rightarrow> Chat \<Rightarrow> bool" where
  "listable getUser hasChatMessages user chat \<longleftrightarrow>
     deletedAt chat = None \<and>
     (case find (\<lambda>i. i \<noteq> uid user) (participants chat) of
        None \<Rightarrow> False
      | Some other \<Rightarrow> other \<noteq> [] \<and> (\<exists>profile. getUser other = Resolved (Some profile))) \<and>
     hasChatMessages (id_chat chat) = Resolved True"

section \<open>The ChatWindow component as a state machine\<close>

text \<open>
  The values the subscription callback closes over when the subscription effect runs.
  The effect returns early when there is no current user, so a live callback has one.
\<close>

record Closure =
  closed_chatId :: string
  closed_blockedUsers :: "string set"
  closed_translationEnabled :: bool
  closed_targetLanguage :: string
  closed_currentUser :: User

text \<open>
  The props (\<open>chatId\<close>, \<open>blockedUsers\<close>), the context value \<open>currentUser\<close>, the
  \<open>useState\<close> cells, the \<open>useRef\<close> cell \<open>hasMarkedAsReadRef\<close>, the live
  subscription, and the process-wide Deletion Ledger the handlers and the callback use.
  Two fields hold the asynchronous work that has begun and not yet resumed. \<open>inFlight\<close>
  has one outcome for each run of the subscription callback that is waiting at its
  \<open>await Promise.all\<close>: nothing cancels it, so it reaches \<open>setMessages\<close> when it
  settles, whatever happened to the subscription meanwhile. \<open>deleting\<close> has, for each
  call of \<open>handleDeleteMessageForEveryone\<close> waiting at its \<open>await\<close>, the message id
  and the \<open>messages\<close> of the render in which the handler was called.
\<close>

record ChatWindow =
  chatId :: string
  currentUser :: "User option"
  blockedUsers :: "string set"
  messages :: "Message list"
  translationEnabled :: bool
  targetLanguage :: string
  showSettings :: bool
  unreadMessageIds :: "string set"
  hasMarkedAsReadRef :: bool
  subscription :: "Closure option"
  inFlight :: "Message list promise list"
  deleting :: "(string \<times> Message list) list"
  deletionLedger :: DeletionLedger

text \<open>The calls the component makes to its services, in the order it makes them.\<close>

datatype request =
    GetUnreadMessages string string
  | GetChatMessages string
  | Unsubscribe
  | MarkMessagesAsRead string string
  | UpdateTranslationSettings string string bool string
  | SetSettings string bool string
  | DeleteMessageForEveryone string

text \<open>The effect with dependencies \<open>[chatId]\<close>.\<close>

definition resetGuardEffect :: "ChatWindow \<Rightarrow> ChatWindow" where
  "resetGuardEffect s = s\<lparr>hasMarkedAsReadRef := False\<rparr>"

text \<open>
  The effect with dependencies \<open>[chatId, translationEnabled, targetLanguage, currentUser,
  blockedUsers]\<close>: its cleanup, then its body (the guarded snapshot, then the subscription).
\<close>

definition subscriptionCleanup :: "ChatWindow \<Rightarrow> ChatWindow \<times> request list" where
  "subscriptionCleanup s =
     (s\<lparr>subscription := None\<rparr>, if subscription s = None then [] else [Unsubscribe])"

definition subscriptionEffect :: "ChatWindow \<Rightarrow> ChatWindow \<times> request list" where
  "subscriptionEffect s =
     (case currentUser s of
        None \<Rightarrow> (s, [])
      | Some u \<Rightarrow>
          if chatId s = [] then (s, [])
          else
            (let snapshot =
                   (if \<not> hasMarkedAsReadRef s then [GetUnreadMessages (chatId s) (uid u)] else []);
                 s1 = (if \<not> hasMarkedAsReadRef s then s\<lparr>hasMarkedAsReadRef := True\<rparr> else s);
                 closure =
                   \<lparr>closed_chatId = chatId s, closed_blockedUsers = blockedUsers s,
                    closed_translationEnabled = translationEnabled s,
                    closed_targetLanguage = targetLanguage s, closed_currentUser = u\<rparr>
             in (s1\<lparr>subscription := Some closure\<rparr>, snapshot @ [GetChatMessages (chatId s)])))"

text \<open>The effect with dependencies \<open>[chatId, currentUser]\<close>.\<close>

definition markAsReadEffect :: "ChatWindow \<Rightarrow> request list" where
  "markAsReadEffect s =
     (case currentUser s of
        None \<Rightarrow> []
      | Some u \<Rightarrow> if chatId s = [] then [] else [MarkMessagesAsRead (chatId s) (uid u)])"

text \<open>
  One commit: the effects whose dependencies changed run in the order of their
  declaration. The three flags say whether \<open>chatId\<close> changed, whether a dependency of the
  subscription effect changed, and whether a dependency of the mark-as-read effect changed.
\<close>

definition runEffects :: "bool \<Rightarrow> bool \<Rightarrow> bool \<Rightarrow> ChatWindow \<Rightarrow> ChatWindow \<times> request list" where
  "runEffects chatIdChanged subscriptionDeps readDeps s =
     (let s1 = (if chatIdChanged then resetGuardEffect s else s);
          sub =
            (if subscriptionDeps then
               (let c = subscriptionCleanup s1; e = subscriptionEffect (fst c)
                in (fst e, snd c @ snd e))
             else (s1, []));
          rd = (if readDeps then markAsReadEffect (fst sub) else [])
      in (fst sub, snd sub @ rd))"

text \<open>The first render and commit of a mounted component: every effect runs.\<close>

definition mount ::
  "string \<Rightarrow> User option \<Rightarrow> string set \<Rightarrow> bool \<Rightarrow> string \<Rightarrow> DeletionLedger \<Rightarrow> ChatWindow \<times> request list" where
  "mount chat user blocked initialTranslationEnabled initialTargetLanguage ledger =
     runEffects True True True
       \<lparr>chatId = chat, currentUser = user, blockedUsers = blocked, messages = [],
        translationEnabled = initialTranslationEnabled, targetLanguage = initialTargetLanguage,
        showSettings = False, unreadMessageIds = {}, hasMarkedAsReadRef = False,
        subscription = None, inFlight = [], deleting = [], deletionLedger = ledger\<rparr>"

text \<open>
  What can happen to a mounted component. A prop or context change is a new render; an
  object dependency (\<open>currentUser\<close>, the \<open>blockedUsers\<close> set) counts as changed whenever a
  new object arrives. \<open>SettingsLoaded\<close> is a run of the effect that copies the stored
  translation settings into the two state cells. \<open>UnreadResolved\<close> and
  \<open>MarkReadResolved\<close> are the \<open>then\<close> callbacks of the two read-state calls.
  \<open>Delivery\<close> is the subscription callback called with the delivered list, up to its
  \<open>await\<close> if it has one; \<open>TranslationsSettled k\<close> is the \<open>k\<close>-th waiting run of
  the callback resumed, in any order. \<open>SettingsClosed\<close> is \<open>setShowSettings(false)\<close>:
  the dialog closed, or \<open>handleSaveTranslationSettings\<close> resumed after its awaited call.
  \<open>DeleteForEveryone\<close> is \<open>handleDeleteMessageForEveryone\<close> called, and
  \<open>DeletedForEveryone k\<close> and \<open>DeleteForEveryoneFailed k\<close> are its \<open>k\<close>-th waiting
  call resumed after the awaited call resolved or rejected. The handlers that only touch
  \<open>replyingTo\<close>, \<open>uploading\<close> and \<open>showContactProfile\<close> change nothing of this
  state and are left out.
\<close>

datatype event =
    ChatIdChanged string
  | CurrentUserChanged "User option"
  | BlockedUsersChanged "string set"
  | SettingsLoaded bool string
  | ToggleTranslation
  | SaveTranslationSettings bool string
  | LanguageChange string
  | SettingsClosed
  | DeleteLocalMessage string
  | DeleteForEveryone string
  | DeletedForEveryone nat
  | DeleteForEveryoneFailed nat
  | UnreadResolved "Message list"
  | MarkReadResolved
  | Delivery "Message list"
  | TranslationsSettled nat

definition handleToggleTranslation :: "ChatWindow \<Rightarrow> ChatWindow \<times> request list" where
  "handleToggleTranslation s =
     (if \<not> translationEnabled s then (s\<lparr>showSettings := True\<rparr>, [])
      else
        (let update =
               (case currentUser s of
                  None \<Rightarrow> []
                | Some u \<Rightarrow> [UpdateTranslationSettings (chatId s) (uid u) False (targetLanguage s)]);
             c = runEffects False True False (s\<lparr>translationEnabled := False\<rparr>)
         in (fst c, update @ snd c)))"

definition handleSaveTranslationSettings :: "bool \<Rightarrow> string \<Rightarrow> ChatWindow \<Rightarrow> ChatWindow \<times> request list" where
  "handleSaveTranslationSettings enabled language s =
     (case currentUser s of
        None \<Rightarrow> (s, [])
      | Some u \<Rightarrow>
          (let c = runEffects False
                     (enabled \<noteq> translationEnabled s \<or> language \<noteq> targetLanguage s) False
                     (s\<lparr>translationEnabled := enabled, targetLanguage := language\<rparr>)
           in (fst c,
               [SetSettings (chatId s) enabled language,
                UpdateTranslationSettings (chatId s) (uid u) enabled language] @ snd c)))"

definition handleLanguageChange :: "string \<Rightarrow> ChatWindow \<Rightarrow> ChatWindow \<times> request list" where
  "handleLanguageChange language s =
     (case currentUser s of
        None \<Rightarrow> (s, [])
      | Some u \<Rightarrow>
          (let c = runEffects False (language \<noteq> targetLanguage s) False
                     (s\<lparr>targetLanguage := language\<rparr>)
           in (fst c,
               [SetSettings (chatId s) (translationEnabled s) language,
                UpdateTranslationSettings (chatId s) (uid u) (translationEnabled s) language]
               @ snd c)))"

definition handleDeleteLocalMessage :: "string \<Rightarrow> ChatWindow \<Rightarrow> ChatWindow" where
  "handleDeleteLocalMessage messageId s =
     s\<lparr>deletionLedger := addLocalDeletedMessage (chatId s) messageId (deletionLedger s),
       messages := filter (\<lambda>msg. id_msg msg \<noteq> messageId) (messages s)\<rparr>"

definition removeAt :: "nat \<Rightarrow> 'a list \<Rightarrow> 'a list" where
  "removeAt k xs = take k xs @ drop (Suc k) xs"

text \<open>
  \<open>handleDeleteMessageForEveryone\<close>: the call, and its continuation after the awaited
  call resolved, which filters the \<open>messages\<close> the handler closed over.
\<close>

definition handleDeleteMessageForEveryone :: "string \<Rightarrow> ChatWindow \<Rightarrow> ChatWindow \<times> request list" where
  "handleDeleteMessageForEveryone messageId s =
     (s\<lparr>deleting := deleting s @ [(messageId, messages s)]\<rparr>, [DeleteMessageForEveryone messageId])"

definition deletedForEveryone :: "nat \<Rightarrow> ChatWindow \<Rightarrow> ChatWindow" where
  "deletedForEveryone k s =
     (if k < length (deleting s) then
        s\<lparr>messages := filter (\<lambda>msg. id_msg msg \<noteq> fst (deleting s ! k)) (snd (deleting s ! k)),
          deleting := removeAt k (deleting s)\<rparr>
      else s)"

definition deleteForEveryoneFailed :: "nat \<Rightarrow> ChatWindow \<Rightarrow> ChatWindow" where
  "deleteForEveryoneFailed k s = s\<lparr>deleting := removeAt k (deleting s)\<rparr>"

text \<open>
  The subscription callback called with the delivered list. It reads the ledger when it
  is called. With translation off in its closure it has no \<open>await\<close> and reaches
  \<open>setMessages\<close> at once; with translation on it waits at \<open>await Promise.all\<close>, and
  its outcome joins the runs in flight.
\<close>

definition deliver :: "(string \<Rightarrow> string \<Rightarrow> string promise) \<Rightarrow> Message list \<Rightarrow> ChatWindow \<Rightarrow> ChatWindow" where
  "deliver translateText fetchedMessages s =
     (case subscription s of
        None \<Rightarrow> s
      | Some c \<Rightarrow>
          (let outcome =
                 onMessages translateText
                   (getDeletedMessagesForChat (deletionLedger s) (closed_chatId c))
                   (closed_blockedUsers c) (closed_translationEnabled c)
                   (Some (closed_currentUser c)) (closed_targetLanguage c) fetchedMessages
           in if closed_translationEnabled c then s\<lparr>inFlight := inFlight s @ [outcome]\<rparr>
              else
                (case outcome of
                   Rejected \<Rightarrow> s
                 | Resolved processedMessages \<Rightarrow> s\<lparr>messages := processedMessages\<rparr>)))"

text \<open>
  A waiting run of the callback resumed: \<open>setMessages\<close> when every translation
  resolved, nothing when one rejected.
\<close>

definition translationsSettled :: "nat \<Rightarrow> ChatWindow \<Rightarrow> ChatWindow" where
  "translationsSettled k s =
     (if k < length (inFlight s) then
        (case inFlight s ! k of
           Rejected \<Rightarrow> s\<lparr>inFlight := removeAt k (inFlight s)\<rparr>
         | Resolved processedMessages \<Rightarrow>
             s\<lparr>messages := processedMessages, inFlight := removeAt k (inFlight s)\<rparr>)
      else s)"

fun step :: "(string \<Rightarrow> string \<Rightarrow> string promise) \<Rightarrow> ChatWindow \<Rightarrow> event \<Rightarrow> ChatWindow \<times> request list" where
  "step translateText s (ChatIdChanged c) =
     (let changed = (c \<noteq> chatId s) in runEffects changed changed changed (s\<lparr>chatId := c\<rparr>))"
| "step translateText s (CurrentUserChanged u) =
     runEffects False True True (s\<lparr>currentUser := u\<rparr>)"
| "step translateText s (BlockedUsersChanged b) =
     runEffects False True False (s\<lparr>blockedUsers := b\<rparr>)"
| "step translateText s (SettingsLoaded enabled language) =
     runEffects False (enabled \<noteq> translationEnabled s \<or> language \<noteq> targetLanguage s) False
       (s\<lparr>translationEnabled := enabled, targetLanguage := language\<rparr>)"
| "step translateText s ToggleTranslation = handleToggleTranslation s"
| "step translateText s (SaveTranslationSettings enabled language) =
     handleSaveTranslationSettings enabled language s"
| "step translateText s (LanguageChange language) = handleLanguageChange language s"
| "step translateText s SettingsClosed = (s\<lparr>showSettings := False\<rparr>, [])"
| "step translateText s (DeleteLocalMessage messageId) = (handleDeleteLocalMessage messageId s, [])"
| "step translateText s (DeleteForEveryone messageId) = handleDeleteMessageForEveryone messageId s"
| "step translateText s (DeletedForEveryone k) = (deletedForEveryone k s, [])"
| "step translateText s (DeleteForEveryoneFailed k) = (deleteForEveryoneFailed k s, [])"
| "step translateText s (UnreadResolved unreadMsgs) =
     (s\<lparr>unreadMessageIds := set (map id_msg unreadMsgs)\<rparr>, [])"
| "step translateText s MarkReadResolved = (s\<lparr>unreadMessageIds := {}\<rparr>, [])"
| "step translateText s (Delivery fetchedMessages) = (deliver translateText fetchedMessages s, [])"
| "step translateText s (TranslationsSettled k) = (translationsSettled k s, [])"

text \<open>A run: the state after a sequence of events, with every request made so far.\<close>

fun run ::
  "(string \<Rightarrow> string \<Rightarrow> string promise) \<Rightarrow> ChatWindow \<times> request list \<Rightarrow> event list \<Rightarrow>
     ChatWindow \<times> request list" where
  "run translateText c [] = c"
| "run translateText c (e # es) =
     run translateText
       (let n = step translateText (fst c) e in (fst n, snd c @ snd n)) es"

text \<open>What the component renders from its state.\<close>

definition display :: "ChatWindow \<Rightarrow> item list" where
  "display s = getMessagesWithDateSeparators (messages s) (unreadMessageIds s)"

fun isSnapshot :: "request \<Rightarrow> bool" where
  "isSnapshot (GetUnreadMessages c u) = True"
| "isSnapshot r = False"

text \<open>
  An event opens a chat when it passes a chat id other than the current one; a render with
  the same id is not an open. The opens of a run are counted along its states.
\<close>

fun opensChat :: "ChatWindow \<Rightarrow> event \<Rightarrow> bool" where
  "opensChat s (ChatIdChanged c) = (c \<noteq> chatId s)"
| "opensChat s e = False"

fun chatOpens :: "(string \<Rightarrow> string \<Rightarrow> string promise) \<Rightarrow> ChatWindow \<Rightarrow> event list \<Rightarrow> nat" where
  "chatOpens translateText s [] = 0"
| "chatOpens translateText s (e # es) =
     (if opensChat s e then 1 else 0) + chatOpens translateText (fst (step translateText s e)) es"

text \<open>The closure the subscription effect builds from a state, if it subscribes.\<close>

definition closureOf :: "ChatWindow \<Rightarrow> Closure option" where
  "closureOf s =
     (case currentUser s of
        None \<Rightarrow> None
      | Some u \<Rightarrow>
          if chatId s = [] then None
          else Some \<lparr>closed_chatId = chatId s, closed_blockedUsers = blockedUsers s,
                     closed_translationEnabled = translationEnabled s,
                     closed_targetLanguage = targetLanguage s, closed_currentUser = u\<rparr>)"

text \<open>
  The number of unread-set snapshots among the requests made, and the same number counting
  one more while the guard flag is down (a snapshot that the next run of the subscription
  effect may take).
\<close>

definition snapshots :: "request list \<Rightarrow> nat" where
  "snapshots rs = length (filter isSnapshot rs)"

definition pending :: "ChatWindow \<times> request list \<Rightarrow> nat" where
  "pending c = snapshots (snd c) + (if hasMarkedAsReadRef (fst c) then 0 else 1)"

text \<open>
  Notions used to state what a delivery publishes: the delivered messages that are neither
  in the ledger of the closure's chat, as the ledger is when the delivery arrives, nor
  from a sender in the closure's block set; and a message with its translation removed.
\<close>

definition keptOf :: "ChatWindow \<Rightarrow> Closure \<Rightarrow> Message list \<Rightarrow> Message list" where
  "keptOf s c fetched =
     filter (\<lambda>m. \<not> isMessageLocallyDeleted (deletionLedger s) (closed_chatId c) (id_msg m) \<and>
                 senderId m \<notin> closed_blockedUsers c) fetched"

definition withoutTranslation :: "Message \<Rightarrow> Message" where
  "withoutTranslation m = m\<lparr>translatedText := None\<rparr>"

section \<open>Example data\<close>

definition exampleDate :: "int \<Rightarrow> int \<Rightarrow> Date" where
  "exampleDate day time = \<lparr>getFullYear = 2024, getMonth = 0, getDate = day, getTimeOfDay = time\<rparr>"

definition exampleMessage :: "string \<Rightarrow> string \<Rightarrow> string \<Rightarrow> Date \<Rightarrow> Message" where
  "exampleMessage i sender text date =
     \<lparr>id_msg = i, senderId = sender, originalText = Some text, translatedText = None,
      mediaType = None, timestamp = date\<rparr>"

definition exampleChatMessages :: "Message list" where
  "exampleChatMessages =
     [exampleMessage ''m1'' ''bob'' ''Hola'' (exampleDate 1 100),
      exampleMessage ''m2'' ''bob'' ''Que tal'' (exampleDate 1 200),
      exampleMessage ''m3'' ''alice'' ''Bien'' (exampleDate 2 50)]"

definition exampleUser :: "string \<Rightarrow> User" where
  "exampleUser i = \<lparr>uid = i, displayName = i, blockList = None\<rparr>"

definition exampleChat :: "string \<Rightarrow> string list \<Rightarrow> Date option \<Rightarrow> Chat" where
  "exampleChat i users deleted =
     \<lparr>id_chat = i, participants = users, lastMessage = [], lastMessageTime = exampleDate 1 0,
      deletedAt = deleted\<rparr>"

definition exampleTranslate :: "string \<Rightarrow> string \<Rightarrow> string promise" where
  "exampleTranslate text language =
     (if text = ''Hola'' \<and> language = ''en'' then Resolved ''Hello'' else Resolved text)"

text \<open>
  The chat \<open>c1\<close> opened by \<open>alice\<close> with translation off, its history delivered and
  \<open>m2\<close> reported unread; and the same chat opened with translation on, one foreign and
  one own message delivered and the translations settled.
\<close>

definition exampleWindow :: ChatWindow where
  "exampleWindow =
     fst (run exampleTranslate
       (mount ''c1'' (Some (exampleUser ''alice'')) {} False ''en'' (\<lambda>c. {}))
       [Delivery exampleChatMessages, UnreadResolved [exampleChatMessages ! 1]])"

definition exampleTranslatedWindow :: ChatWindow where
  "exampleTranslatedWindow =
     fst (run exampleTranslate
       (mount ''c1'' (Some (exampleUser ''alice'')) {} True ''en'' (\<lambda>c. {}))
       [Delivery [exampleMessage ''m1'' ''bob'' ''Hola'' (exampleDate 1 100),
                  exampleMessage ''m3'' ''alice'' ''Bien'' (exampleDate 2 50)],
        TranslationsSettled 0])"

definition exampleFetched :: "Message list" where
  "exampleFetched = exampleChatMessages @ [exampleMessage ''m4'' ''carol'' ''Hi'' (exampleDate 2 60)]"

definition exampleGetUser :: "string \<Rightarrow> User option promise" where
  "exampleGetUser i = (if i = ''bob'' then Resolved (Some (exampleUser ''bob'')) else Resolved None)"

definition exampleHasChatMessages :: "string \<Rightarrow> bool promise" where
  "exampleHasChatMessages c = Resolved (c \<noteq> ''c2'')"

definition exampleGetUnreadCount :: "string \<Rightarrow> string \<Rightarrow> nat promise" where
  "exampleGetUnreadCount c i = Resolved 2"

definition exampleChats :: "Chat list" where
  "exampleChats =
     [exampleChat ''c1'' [''alice'', ''bob''] None,
      exampleChat ''c2'' [''bob'', ''alice''] None,
      exampleChat ''c3'' [''alice'', ''bob''] (Some (exampleDate 3 0)),
      exampleChat ''c4'' [''alice''] None,
      exampleChat ''c5'' [''alice'', ''dan''] None]"

section \<open>Properties of the presentation grouper\<close>

lemmas grouper_eval = getMessagesWithDateSeparators_def getMessagesWithDateSeparators_call_def
  forEach_messages_def forEach_body_def
  isSameDay_def Let_def exampleMessage_def exampleDate_def exampleChatMessages_def

lemma forEach_body_prefix:
  assumes "index < length ms"
  shows "forEach_body (ms @ rest) unread st index = forEach_body ms unread st index"
proof -
  have a: "(ms @ rest) ! index = ms ! index"
    using assms by (simp add: nth_append)
  have b: "(ms @ rest) ! (index - 1) = ms ! (index - 1)"
    using assms by (simp add: nth_append)
  show ?thesis
    unfolding forEach_body_def a b ..
qed

lemma forEach_snoc:
  "forEach_messages (ms @ [m]) u f =
     (fst (forEach_messages ms u f)
        @ block (if ms = [] then None else Some (last ms)) (snd (forEach_messages ms u f)) u m,
      snd (forEach_messages ms u f) \<or> id_msg m \<in> u)"
proof -
  have pre: "foldl (forEach_body (ms @ [m]) u) f [0..<length ms]
      = foldl (forEach_body ms u) f [0..<length ms]"
    by (rule foldl_cong) (simp_all add: forEach_body_prefix)
  have lastm: "ms \<noteq> [] \<Longrightarrow> (ms @ [m]) ! (length ms - Suc 0) = last ms"
    by (simp add: nth_append last_conv_nth)
  show ?thesis
    unfolding forEach_messages_def
    apply (simp add: pre)
    apply (cases "ms = []")
     apply (simp add: forEach_body_def block_def Let_def)
    apply (auto simp add: forEach_body_def block_def Let_def lastm)
    done
qed

lemma forEach_flag: "snd (forEach_messages ms u ([], False)) = (\<exists>x\<in>set ms. id_msg x \<in> u)"
proof (induction ms rule: rev_induct)
  case Nil
  show ?case by (simp add: forEach_messages_def)
next
  case (snoc m ms)
  then show ?case by (auto simp: forEach_snoc)
qed

lemma grouper_Nil: "getMessagesWithDateSeparators [] u = []"
  by (simp add: getMessagesWithDateSeparators_def getMessagesWithDateSeparators_call_def
      forEach_messages_def)

lemma grouper_snoc:
  "getMessagesWithDateSeparators (ms @ [m]) u =
     getMessagesWithDateSeparators ms u
       @ block (if ms = [] then None else Some (last ms)) (\<exists>x\<in>set ms. id_msg x \<in> u) u m"
  by (simp add: getMessagesWithDateSeparators_def getMessagesWithDateSeparators_call_def
      forEach_snoc forEach_flag)

lemma messagesOf_append: "messagesOf (xs @ ys) = messagesOf xs @ messagesOf ys"
  by (simp add: messagesOf_def)

lemma messagesOf_block: "messagesOf (block p a u m) = [m]"
  by (simp add: block_def messagesOf_def split: option.split)

lemma messagesOf_grouper: "messagesOf (getMessagesWithDateSeparators ms u) = ms"
  by (induction ms rule: rev_induct) (simp_all add: grouper_Nil grouper_snoc messagesOf_append messagesOf_block, simp add: messagesOf_def)



lemma block_no_unread: "added \<or> id_msg m \<notin> u \<Longrightarrow> UnreadItem \<notin> set (block p added u m)"
  by (auto simp: block_def split: option.splits)

lemma grouper_no_unread:
  "\<forall>m\<in>set ms. id_msg m \<notin> u \<Longrightarrow> UnreadItem \<notin> set (getMessagesWithDateSeparators ms u)"
proof (induction ms rule: rev_induct)
  case Nil
  show ?case by (simp add: grouper_Nil)
next
  case (snoc m ms)
  then show ?case by (simp add: grouper_snoc block_no_unread)
qed

lemma grouper_single: "getMessagesWithDateSeparators [m] u = block None False u m"
  using grouper_snoc [of "[]" m u] by (simp add: grouper_Nil)

lemma grouper_hd:
  "ms \<noteq> [] \<Longrightarrow> \<exists>rest. getMessagesWithDateSeparators ms u = DateItem (timestamp (hd ms)) # rest"
proof (induction ms rule: rev_induct)
  case Nil
  then show ?case by simp
next
  case (snoc m ms)
  show ?case
  proof (cases "ms = []")
    case True
    then show ?thesis by (simp add: grouper_single block_def)
  next
    case False
    with snoc.IH obtain rest where
      "getMessagesWithDateSeparators ms u = DateItem (timestamp (hd ms)) # rest" by blast
    with False show ?thesis by (simp add: grouper_snoc)
  qed
qed

lemma grouper_unread_position:
  assumes "\<exists>m\<in>set ms. id_msg m \<in> u"
  shows "\<exists>pre post.
      getMessagesWithDateSeparators ms u
        = pre @ [UnreadItem, MessageItem (hd (dropWhile (\<lambda>m. id_msg m \<notin> u) ms))] @ post
      \<and> UnreadItem \<notin> set pre \<and> UnreadItem \<notin> set post
      \<and> messagesOf pre = takeWhile (\<lambda>m. id_msg m \<notin> u) ms
      \<and> messagesOf post = tl (dropWhile (\<lambda>m. id_msg m \<notin> u) ms)"
  using assms
proof (induction ms rule: rev_induct)
  case Nil
  then show ?case by simp
next
  case (snoc m ms)
  let ?P = "\<lambda>m. id_msg m \<notin> u"
  let ?prev = "if ms = [] then None else Some (last ms)"
  show ?case
  proof (cases "\<exists>x\<in>set ms. id_msg x \<in> u")
    case True
    with snoc.IH obtain pre post where
      o: "getMessagesWithDateSeparators ms u = pre @ [UnreadItem, MessageItem (hd (dropWhile ?P ms))] @ post"
      and p1: "UnreadItem \<notin> set pre" and p2: "UnreadItem \<notin> set post"
      and p3: "messagesOf pre = takeWhile ?P ms"
      and p4: "messagesOf post = tl (dropWhile ?P ms)"
      by blast
    from True have ne: "dropWhile ?P ms \<noteq> []" by auto
    from True obtain x where x: "x \<in> set ms" "\<not> ?P x" by auto
    have tw: "takeWhile ?P (ms @ [m]) = takeWhile ?P ms"
      using x by (rule takeWhile_append1)
    have dw: "dropWhile ?P (ms @ [m]) = dropWhile ?P ms @ [m]"
      using x by (rule dropWhile_append1)
    let ?b = "block ?prev True u m"
    have out: "getMessagesWithDateSeparators (ms @ [m]) u
        = pre @ [UnreadItem, MessageItem (hd (dropWhile ?P (ms @ [m])))] @ (post @ ?b)"
      using True ne by (simp add: grouper_snoc o dw)
    have q2: "UnreadItem \<notin> set (post @ ?b)"
      using p2 by (simp add: block_no_unread)
    have q3: "messagesOf pre = takeWhile ?P (ms @ [m])"
      using p3 tw by simp
    have q4: "messagesOf (post @ ?b) = tl (dropWhile ?P (ms @ [m]))"
      using p4 ne by (simp add: messagesOf_append messagesOf_block dw)
    from out p1 q2 q3 q4 show ?thesis by blast
  next
    case False
    with snoc.prems have mu: "id_msg m \<in> u" by auto
    from False have all: "\<forall>x\<in>set ms. id_msg x \<notin> u" by blast
    let ?d = "case ?prev of None \<Rightarrow> [DateItem (timestamp m)]
      | Some p \<Rightarrow> if isSameDay (timestamp p) (timestamp m) then [] else [DateItem (timestamp m)]"
    have tw: "takeWhile ?P (ms @ [m]) = ms"
      using all mu by (simp add: takeWhile_append2)
    have dw: "dropWhile ?P (ms @ [m]) = [m]"
      using all mu by (simp add: dropWhile_append2)
    have out: "getMessagesWithDateSeparators (ms @ [m]) u
        = (getMessagesWithDateSeparators ms u @ ?d)
            @ [UnreadItem, MessageItem (hd (dropWhile ?P (ms @ [m])))] @ []"
      using False mu unfolding dw by (simp add: grouper_snoc block_def)
    have q1: "UnreadItem \<notin> set (getMessagesWithDateSeparators ms u @ ?d)"
      using grouper_no_unread [OF all] by (auto split: option.splits)
    have q3: "messagesOf (getMessagesWithDateSeparators ms u @ ?d) = takeWhile ?P (ms @ [m])"
      unfolding tw by (simp add: messagesOf_append messagesOf_grouper) (simp add: messagesOf_def split: option.splits)
    have q4: "messagesOf [] = tl (dropWhile ?P (ms @ [m]))"
      unfolding dw by (simp add: messagesOf_def)
    have q2: "UnreadItem \<notin> set []" by simp
    from out q1 q2 q3 q4 show ?thesis by blast
  qed
qed


lemma isSameDay_calendarDay: "isSameDay a b \<longleftrightarrow> calendarDay a = calendarDay b"
  by (auto simp: isSameDay_def calendarDay_def)

lemma lex_le_fst: "((x::'a::preorder), (y::'b::preorder)) \<le> (x', y') \<Longrightarrow> x \<le> x'"
  by (auto simp: less_eq_prod_def less_le_not_le)

lemma instant_le_day: "instant a \<le> instant b \<Longrightarrow> calendarDay a \<le> calendarDay b"
  unfolding instant_def by (rule lex_le_fst)

lemma timestampOrdered_butlast: "timestampOrdered (ms @ [m]) \<Longrightarrow> timestampOrdered ms"
  by (simp add: timestampOrdered_def sorted_append)

lemma timestampOrdered_le_last:
  assumes "timestampOrdered ms" and "x \<in> set ms"
  shows "calendarDay (timestamp x) \<le> calendarDay (timestamp (last ms))"
  using assms
proof (induction ms rule: rev_induct)
  case Nil
  then show ?case by simp
next
  case (snoc m ms)
  then show ?case
    by (auto simp: timestampOrdered_def sorted_append intro: instant_le_day)
qed

lemma timestampOrdered_new_day:
  assumes ord: "timestampOrdered (ms @ [m])"
    and diff: "\<not> isSameDay (timestamp (last ms)) (timestamp m)"
    and x: "x \<in> set ms"
  shows "\<not> isSameDay (timestamp x) (timestamp m)"
proof
  assume same: "isSameDay (timestamp x) (timestamp m)"
  from x have ne: "ms \<noteq> []" by auto
  have a: "calendarDay (timestamp x) \<le> calendarDay (timestamp (last ms))"
    using timestampOrdered_le_last [OF timestampOrdered_butlast [OF ord] x] .
  have "instant (timestamp (last ms)) \<le> instant (timestamp m)"
    using ord ne by (simp add: timestampOrdered_def sorted_append)
  then have b: "calendarDay (timestamp (last ms)) \<le> calendarDay (timestamp m)"
    by (rule instant_le_day)
  from same a b have "calendarDay (timestamp (last ms)) = calendarDay (timestamp m)"
    by (simp add: isSameDay_calendarDay)
  with diff show False by (simp add: isSameDay_calendarDay)
qed

lemma datesOf_append: "datesOf (xs @ ys) = datesOf xs @ datesOf ys"
  by (simp add: datesOf_def)

lemma datesOf_block:
  "datesOf (block p a u m) =
     (if p = None \<or> \<not> isSameDay (timestamp (the p)) (timestamp m) then [timestamp m] else [])"
  by (simp add: block_def datesOf_def split: option.split)

lemma grouper_dates_count:
  "timestampOrdered ms \<Longrightarrow>
     length (datesOf (getMessagesWithDateSeparators ms u))
       = card ((\<lambda>m. calendarDay (timestamp m)) ` set ms)"
proof (induction ms rule: rev_induct)
  case Nil
  show ?case by (simp add: grouper_Nil datesOf_def)
next
  case (snoc m ms)
  let ?f = "\<lambda>m. calendarDay (timestamp m)"
  have ih: "length (datesOf (getMessagesWithDateSeparators ms u)) = card (?f ` set ms)"
    using snoc.IH timestampOrdered_butlast [OF snoc.prems] by simp
  have mem: "?f m \<in> ?f ` set ms \<longleftrightarrow> ms \<noteq> [] \<and> isSameDay (timestamp (last ms)) (timestamp m)"
  proof
    assume "?f m \<in> ?f ` set ms"
    then obtain x where x: "x \<in> set ms" and eq: "?f x = ?f m" by auto
    then have "isSameDay (timestamp x) (timestamp m)" by (simp add: isSameDay_calendarDay)
    with timestampOrdered_new_day [OF snoc.prems _ x] x
    show "ms \<noteq> [] \<and> isSameDay (timestamp (last ms)) (timestamp m)" by auto
  next
    assume a: "ms \<noteq> [] \<and> isSameDay (timestamp (last ms)) (timestamp m)"
    then have "last ms \<in> set ms" by simp
    moreover from a have "?f (last ms) = ?f m" by (simp add: isSameDay_calendarDay)
    ultimately show "?f m \<in> ?f ` set ms" by (metis image_eqI)
  qed
  have card: "card (?f ` set (ms @ [m])) = (if ?f m \<in> ?f ` set ms then card (?f ` set ms) else Suc (card (?f ` set ms)))"
    by (simp add: card_insert_if)
  show ?case
    unfolding card mem
    by (simp add: grouper_snoc datesOf_append datesOf_block ih)
qed

lemma grouper_dates:
  "datesOf (getMessagesWithDateSeparators ms u) =
     map (\<lambda>i. timestamp (ms ! i))
       (filter (\<lambda>i. i = 0 \<or> \<not> isSameDay (timestamp (ms ! (i - 1))) (timestamp (ms ! i)))
          [0..<length ms])"
proof (induction ms rule: rev_induct)
  case Nil
  show ?case by (simp add: grouper_Nil datesOf_def)
next
  case (snoc m ms)
  let ?Q = "\<lambda>xs i. i = 0 \<or> \<not> isSameDay (timestamp (xs ! (i - Suc 0))) (timestamp (xs ! i))"
  have f: "filter (?Q (ms @ [m])) [0..<length ms] = filter (?Q ms) [0..<length ms]"
    by (rule filter_cong) (auto simp: nth_append)
  have g: "map (\<lambda>i. timestamp ((ms @ [m]) ! i)) (filter (?Q ms) [0..<length ms])
      = map (\<lambda>i. timestamp (ms ! i)) (filter (?Q ms) [0..<length ms])"
    by (rule map_cong) (auto simp: nth_append)
  have l: "ms \<noteq> [] \<Longrightarrow> (ms @ [m]) ! (length ms - Suc 0) = last ms"
    by (simp add: nth_append last_conv_nth)
  show ?case
    by (auto simp: grouper_snoc datesOf_append datesOf_block snoc.IH f g l)
qed

lemma block_date_split:
  assumes "block p a u m = us @ DateItem d # rest"
  shows "us = [] \<and> d = timestamp m
     \<and> (p = None \<or> \<not> isSameDay (timestamp (the p)) (timestamp m))
     \<and> (rest = [MessageItem m] \<or> (rest = [UnreadItem, MessageItem m] \<and> id_msg m \<in> u \<and> \<not> a))"
  using assms
  by (auto simp: block_def Cons_eq_append_conv append_eq_Cons_conv split: option.splits if_splits)


lemma grouper_date_last:
  assumes ord: "timestampOrdered (ms @ [m])"
    and b: "block (if ms = [] then None else Some (last ms)) (\<exists>x\<in>set ms. id_msg x \<in> u) u m
              = us @ DateItem d # rest"
  shows "us = [] \<and> timestamp m = d
     \<and> (rest = [MessageItem m] \<or>
         (rest = [UnreadItem, MessageItem m] \<and> id_msg m \<in> u \<and> (\<forall>x\<in>set ms. id_msg x \<notin> u)))
     \<and> (\<forall>x\<in>set ms. \<not> isSameDay (timestamp x) d)"
proof -
  note s = block_date_split [OF b]
  from s have d: "d = timestamp m" by simp
  have "\<forall>x\<in>set ms. \<not> isSameDay (timestamp x) (timestamp m)"
  proof
    fix x assume x: "x \<in> set ms"
    then have "ms \<noteq> []" by auto
    with s have "\<not> isSameDay (timestamp (last ms)) (timestamp m)" by simp
    from timestampOrdered_new_day [OF ord this x]
    show "\<not> isSameDay (timestamp x) (timestamp m)" .
  qed
  with s d show ?thesis by auto
qed

lemma grouper_date_position:
  assumes "timestampOrdered ms"
    and "getMessagesWithDateSeparators ms u = pre @ DateItem d # rest"
  shows "\<exists>m rest'.
      (rest = MessageItem m # rest' \<or>
       (rest = UnreadItem # MessageItem m # rest' \<and> id_msg m \<in> u
          \<and> (\<forall>x\<in>set (messagesOf pre). id_msg x \<notin> u)))
      \<and> timestamp m = d
      \<and> (\<forall>x\<in>set (messagesOf pre). \<not> isSameDay (timestamp x) d)"
  using assms
proof (induction ms arbitrary: pre rest rule: rev_induct)
  case Nil
  then show ?case by (simp add: grouper_Nil)
next
  case (snoc m ms)
  let ?B = "block (if ms = [] then None else Some (last ms)) (\<exists>x\<in>set ms. id_msg x \<in> u) u m"
  let ?out = "getMessagesWithDateSeparators ms u"
  from snoc.prems(2) have eq: "?out @ ?B = pre @ DateItem d # rest"
    by (simp add: grouper_snoc)
  have inB: ?case if pre: "pre = ?out" and B: "?B = DateItem d # rest"
  proof -
    from B have "?B = [] @ DateItem d # rest" by simp
    from grouper_date_last [OF snoc.prems(1) this] pre
    show ?thesis by (auto simp: messagesOf_grouper)
  qed
  from eq obtain us where
    "(?out = pre @ us \<and> us @ ?B = DateItem d # rest) \<or> (?out @ us = pre \<and> ?B = us @ DateItem d # rest)"
    by (auto simp: append_eq_append_conv2)
  then show ?case
  proof
    assume a: "?out = pre @ us \<and> us @ ?B = DateItem d # rest"
    show ?case
    proof (cases us)
      case Nil
      with a show ?thesis by (intro inB) simp_all
    next
      case (Cons x us')
      with a have o: "?out = pre @ DateItem d # us'" and r: "rest = us' @ ?B" by simp_all
      from snoc.IH [OF timestampOrdered_butlast [OF snoc.prems(1)] o]
      obtain m' rest' where
        h: "(us' = MessageItem m' # rest' \<or>
             (us' = UnreadItem # MessageItem m' # rest' \<and> id_msg m' \<in> u
               \<and> (\<forall>x\<in>set (messagesOf pre). id_msg x \<notin> u)))"
          "timestamp m' = d" "\<forall>x\<in>set (messagesOf pre). \<not> isSameDay (timestamp x) d"
        by blast
      from h(1) r have
        "rest = MessageItem m' # (rest' @ ?B) \<or>
          (rest = UnreadItem # MessageItem m' # (rest' @ ?B) \<and> id_msg m' \<in> u
             \<and> (\<forall>x\<in>set (messagesOf pre). id_msg x \<notin> u))"
        by auto
      with h(2,3) show ?thesis by blast
    qed
  next
    assume a: "?out @ us = pre \<and> ?B = us @ DateItem d # rest"
    from grouper_date_last [OF snoc.prems(1) conjunct2 [OF a]] have "us = []" by simp
    with a show ?case by (intro inB) simp_all
  qed
qed

subsection \<open>Claims about the presentation grouper\<close>

text \<open>
  Claim C10. The items tagged \<open>message\<close> in the output are the input list, in order,
  with nothing dropped or repeated; and for a non-empty input the first item of the
  output is a date marker (carrying the timestamp of the first message).
\<close>

theorem grouper_keeps_messages:
  "messagesOf (getMessagesWithDateSeparators ms u) = ms \<and>
   (ms \<noteq> [] \<longrightarrow>
      getMessagesWithDateSeparators ms u \<noteq> [] \<and>
      hd (getMessagesWithDateSeparators ms u) = DateItem (timestamp (hd ms)))"
proof (intro conjI impI)
  show "messagesOf (getMessagesWithDateSeparators ms u) = ms"
    by (rule messagesOf_grouper)
next
  assume "ms \<noteq> []"
  from grouper_hd [OF this, of u] obtain rest where
    r: "getMessagesWithDateSeparators ms u = DateItem (timestamp (hd ms)) # rest" ..
  from r show "getMessagesWithDateSeparators ms u \<noteq> []" by simp
  from r show "hd (getMessagesWithDateSeparators ms u) = DateItem (timestamp (hd ms))" by simp
qed

text \<open>The chat of three messages over two days, with \<open>m2\<close> unread.\<close>

theorem grouper_keeps_messages_witness:
  "exampleChatMessages \<noteq> [] \<and>
   messagesOf (getMessagesWithDateSeparators exampleChatMessages {''m2''}) = exampleChatMessages \<and>
   hd (getMessagesWithDateSeparators exampleChatMessages {''m2''}) = DateItem (exampleDate 1 100)"
proof -
  have ne: "exampleChatMessages \<noteq> []" by (simp add: exampleChatMessages_def)
  have t: "timestamp (hd exampleChatMessages) = exampleDate 1 100"
    by (simp add: exampleChatMessages_def exampleMessage_def)
  from grouper_keeps_messages [of exampleChatMessages "{''m2''}"] ne t
  show ?thesis by simp
qed

text \<open>
  Claim C3, as amended. When some message of the sequence has its id in the unread set,
  the output has exactly one unread marker, and it stands immediately before the earliest
  such message: the messages before it are those preceding that message, the messages
  after it those following. When no message of the sequence has its id in the unread set,
  in particular when the set is empty, the output has no unread marker.
\<close>

theorem unread_marker_placement:
  "((\<exists>m\<in>set ms. id_msg m \<in> u) \<longrightarrow>
      count_list (getMessagesWithDateSeparators ms u) UnreadItem = 1 \<and>
      (\<exists>pre post.
         getMessagesWithDateSeparators ms u
           = pre @ [UnreadItem, MessageItem (hd (dropWhile (\<lambda>m. id_msg m \<notin> u) ms))] @ post \<and>
         messagesOf pre = takeWhile (\<lambda>m. id_msg m \<notin> u) ms \<and>
         messagesOf post = tl (dropWhile (\<lambda>m. id_msg m \<notin> u) ms))) \<and>
   ((\<forall>m\<in>set ms. id_msg m \<notin> u) \<longrightarrow> UnreadItem \<notin> set (getMessagesWithDateSeparators ms u)) \<and>
   UnreadItem \<notin> set (getMessagesWithDateSeparators ms {})"
proof (intro conjI impI)
  assume "\<exists>m\<in>set ms. id_msg m \<in> u"
  from grouper_unread_position [OF this] obtain pre post where
    o: "getMessagesWithDateSeparators ms u
          = pre @ [UnreadItem, MessageItem (hd (dropWhile (\<lambda>m. id_msg m \<notin> u) ms))] @ post"
    and n: "UnreadItem \<notin> set pre" "UnreadItem \<notin> set post"
    and m: "messagesOf pre = takeWhile (\<lambda>m. id_msg m \<notin> u) ms"
           "messagesOf post = tl (dropWhile (\<lambda>m. id_msg m \<notin> u) ms)"
    by blast
  from n show "count_list (getMessagesWithDateSeparators ms u) UnreadItem = 1"
    unfolding o by (simp add: count_list_0_iff)
  from o m show "\<exists>pre post.
         getMessagesWithDateSeparators ms u
           = pre @ [UnreadItem, MessageItem (hd (dropWhile (\<lambda>m. id_msg m \<notin> u) ms))] @ post \<and>
         messagesOf pre = takeWhile (\<lambda>m. id_msg m \<notin> u) ms \<and>
         messagesOf post = tl (dropWhile (\<lambda>m. id_msg m \<notin> u) ms)"
    by blast
next
  assume "\<forall>m\<in>set ms. id_msg m \<notin> u"
  then show "UnreadItem \<notin> set (getMessagesWithDateSeparators ms u)"
    by (rule grouper_no_unread)
next
  show "UnreadItem \<notin> set (getMessagesWithDateSeparators ms {})"
    by (rule grouper_no_unread) simp
qed

text \<open>
  With \<open>m2\<close> unread the output is \<open>[date, m1, unread, m2, date, m3]\<close>; with only an
  id outside the list unread there is no marker.
\<close>

theorem unread_marker_placement_witness:
  "(\<exists>m\<in>set exampleChatMessages. id_msg m \<in> {''m2''}) \<and>
   count_list (getMessagesWithDateSeparators exampleChatMessages {''m2''}) UnreadItem = 1 \<and>
   getMessagesWithDateSeparators exampleChatMessages {''m2''} =
     [DateItem (exampleDate 1 100), MessageItem (exampleChatMessages ! 0), UnreadItem,
      MessageItem (exampleChatMessages ! 1), DateItem (exampleDate 2 50),
      MessageItem (exampleChatMessages ! 2)] \<and>
   \<not> (\<exists>m\<in>set exampleChatMessages. id_msg m \<in> {''m9''}) \<and>
   UnreadItem \<notin> set (getMessagesWithDateSeparators exampleChatMessages {''m9''})"
proof -
  have a: "\<exists>m\<in>set exampleChatMessages. id_msg m \<in> {''m2''}"
    by (simp add: exampleChatMessages_def exampleMessage_def)
  have b: "\<forall>m\<in>set exampleChatMessages. id_msg m \<notin> {''m9''}"
    by (simp add: exampleChatMessages_def exampleMessage_def)
  have c: "getMessagesWithDateSeparators exampleChatMessages {''m2''} =
     [DateItem (exampleDate 1 100), MessageItem (exampleChatMessages ! 0), UnreadItem,
      MessageItem (exampleChatMessages ! 1), DateItem (exampleDate 2 50),
      MessageItem (exampleChatMessages ! 2)]"
    by (simp add: grouper_eval upt_rec)
  from unread_marker_placement [of exampleChatMessages "{''m2''}"] a
  have d: "count_list (getMessagesWithDateSeparators exampleChatMessages {''m2''}) UnreadItem = 1"
    by blast
  from unread_marker_placement [of exampleChatMessages "{''m9''}"] b
  have e: "UnreadItem \<notin> set (getMessagesWithDateSeparators exampleChatMessages {''m9''})"
    by blast
  from a b c d e show ?thesis by blast
qed

text \<open>
  Claim C3 as stated fails for a non-empty unread set none of whose ids is in the
  displayed sequence: no marker is shown.
\<close>

theorem unread_marker_counterexample:
  "{''m9''} \<noteq> ({} :: string set) \<and>
   getMessagesWithDateSeparators [exampleMessage ''m1'' ''bob'' ''Hola'' (exampleDate 1 100)] {''m9''}
     = [DateItem (exampleDate 1 100),
        MessageItem (exampleMessage ''m1'' ''bob'' ''Hola'' (exampleDate 1 100))] \<and>
   count_list
     (getMessagesWithDateSeparators [exampleMessage ''m1'' ''bob'' ''Hola'' (exampleDate 1 100)] {''m9''})
     UnreadItem = 0"
  by (simp add: grouper_eval upt_rec)

text \<open>
  Claim C2, as amended. For a timestamp-ordered sequence the output has exactly as many
  date markers as the messages have distinct calendar days. The markers are those of the
  first message and of every message whose day differs from that of the message before
  it. Each marker carries the timestamp of the first message of its day and stands before
  that message, with nothing between them but the unread marker when that message is the
  earliest unread one.
\<close>

theorem date_markers_per_day:
  assumes "timestampOrdered ms"
  shows
    "length (datesOf (getMessagesWithDateSeparators ms u))
       = card ((\<lambda>m. calendarDay (timestamp m)) ` set ms) \<and>
     datesOf (getMessagesWithDateSeparators ms u) =
       map (\<lambda>i. timestamp (ms ! i))
         (filter (\<lambda>i. i = 0 \<or> \<not> isSameDay (timestamp (ms ! (i - 1))) (timestamp (ms ! i)))
            [0..<length ms]) \<and>
     (\<forall>pre d rest.
        getMessagesWithDateSeparators ms u = pre @ DateItem d # rest \<longrightarrow>
        (\<exists>m rest'.
           (rest = MessageItem m # rest' \<or>
            (rest = UnreadItem # MessageItem m # rest' \<and> id_msg m \<in> u
               \<and> (\<forall>x\<in>set (messagesOf pre). id_msg x \<notin> u)))
           \<and> timestamp m = d
           \<and> (\<forall>x\<in>set (messagesOf pre). \<not> isSameDay (timestamp x) d)))"
proof (intro conjI allI impI)
  show "length (datesOf (getMessagesWithDateSeparators ms u))
       = card ((\<lambda>m. calendarDay (timestamp m)) ` set ms)"
    using assms by (rule grouper_dates_count)
next
  show "datesOf (getMessagesWithDateSeparators ms u) =
       map (\<lambda>i. timestamp (ms ! i))
         (filter (\<lambda>i. i = 0 \<or> \<not> isSameDay (timestamp (ms ! (i - 1))) (timestamp (ms ! i)))
            [0..<length ms])"
    by (rule grouper_dates)
next
  fix pre d rest
  assume "getMessagesWithDateSeparators ms u = pre @ DateItem d # rest"
  with assms show "\<exists>m rest'.
           (rest = MessageItem m # rest' \<or>
            (rest = UnreadItem # MessageItem m # rest' \<and> id_msg m \<in> u
               \<and> (\<forall>x\<in>set (messagesOf pre). id_msg x \<notin> u)))
           \<and> timestamp m = d
           \<and> (\<forall>x\<in>set (messagesOf pre). \<not> isSameDay (timestamp x) d)"
    by (rule grouper_date_position)
qed

text \<open>Three messages over two days: two markers, the second right before \<open>m3\<close>.\<close>

theorem date_markers_per_day_witness:
  "timestampOrdered exampleChatMessages \<and>
   card ((\<lambda>m. calendarDay (timestamp m)) ` set exampleChatMessages) = 2 \<and>
   length (datesOf (getMessagesWithDateSeparators exampleChatMessages {''m2''})) = 2 \<and>
   getMessagesWithDateSeparators exampleChatMessages {''m2''} =
     [DateItem (exampleDate 1 100), MessageItem (exampleChatMessages ! 0), UnreadItem,
      MessageItem (exampleChatMessages ! 1)]
     @ DateItem (exampleDate 2 50) # [MessageItem (exampleChatMessages ! 2)] \<and>
   (\<exists>m rest'.
      [MessageItem (exampleChatMessages ! 2)] = MessageItem m # rest' \<and>
      timestamp m = exampleDate 2 50)"
proof -
  have ord: "timestampOrdered exampleChatMessages"
    by (simp add: timestampOrdered_def instant_def calendarDay_def grouper_eval)
  have days: "card ((\<lambda>m. calendarDay (timestamp m)) ` set exampleChatMessages) = 2"
    by (simp add: calendarDay_def grouper_eval)
  have out: "getMessagesWithDateSeparators exampleChatMessages {''m2''} =
     [DateItem (exampleDate 1 100), MessageItem (exampleChatMessages ! 0), UnreadItem,
      MessageItem (exampleChatMessages ! 1)]
     @ DateItem (exampleDate 2 50) # [MessageItem (exampleChatMessages ! 2)]"
    by (simp add: grouper_eval upt_rec)
  note t = date_markers_per_day [OF ord, of "{''m2''}"]
  from conjunct1 [OF t] days
  have n: "length (datesOf (getMessagesWithDateSeparators exampleChatMessages {''m2''})) = 2"
    by simp
  from t out obtain m rest' where
    "[MessageItem (exampleChatMessages ! 2)] = MessageItem m # rest' \<or>
      ([MessageItem (exampleChatMessages ! 2)] = UnreadItem # MessageItem m # rest' \<and> id_msg m \<in> {''m2''}
         \<and> (\<forall>x\<in>set (messagesOf [DateItem (exampleDate 1 100), MessageItem (exampleChatMessages ! 0), UnreadItem,
      MessageItem (exampleChatMessages ! 1)]). id_msg x \<notin> {''m2''}))"
    "timestamp m = exampleDate 2 50"
    by blast
  then have "\<exists>m rest'.
      [MessageItem (exampleChatMessages ! 2)] = MessageItem m # rest' \<and>
      timestamp m = exampleDate 2 50"
    by auto
  with ord days n out show ?thesis by blast
qed

text \<open>
  Claim C2 as stated fails when the first message of a day is the earliest unread one:
  the unread marker stands between the date marker and the message.
\<close>

theorem date_markers_counterexample:
  "timestampOrdered [exampleMessage ''m1'' ''bob'' ''Hola'' (exampleDate 1 100)] \<and>
   getMessagesWithDateSeparators [exampleMessage ''m1'' ''bob'' ''Hola'' (exampleDate 1 100)] {''m1''}
     = [DateItem (exampleDate 1 100), UnreadItem,
        MessageItem (exampleMessage ''m1'' ''bob'' ''Hola'' (exampleDate 1 100))]"
  by (simp add: timestampOrdered_def grouper_eval upt_rec)

lemma presentationSpec_snoc:
  "presentationSpec (ms @ [m]) u =
     presentationSpec ms u
       @ block (if ms = [] then None else Some (last ms)) (\<exists>x\<in>set ms. id_msg x \<in> u) u m"
proof -
  let ?P = "\<lambda>m. id_msg m \<notin> u"
  let ?row = "\<lambda>xs i.
      (if i = 0 \<or> calendarDay (timestamp (xs ! (i - 1))) \<noteq> calendarDay (timestamp (xs ! i))
       then [DateItem (timestamp (xs ! i))] else [])
      @ (if i = length (takeWhile ?P xs) then [UnreadItem] else [])
      @ [MessageItem (xs ! i)]"
  have tw: "i = length (takeWhile ?P (ms @ [m])) \<longleftrightarrow> i = length (takeWhile ?P ms)"
    if "i < length ms" for i
  proof (cases "\<forall>x\<in>set ms. ?P x")
    case True
    then have "takeWhile ?P ms = ms" by simp
    then have a: "length (takeWhile ?P ms) = length ms" by (rule arg_cong)
    from True have b: "length (takeWhile ?P (ms @ [m])) \<ge> length ms"
      by (simp add: takeWhile_append2)
    from a b that show ?thesis by linarith
  next
    case False
    then obtain x where "x \<in> set ms" "\<not> ?P x" by blast
    then have "takeWhile ?P (ms @ [m]) = takeWhile ?P ms" by (rule takeWhile_append1)
    then show ?thesis by simp
  qed
  have rows: "map (?row (ms @ [m])) [0..<length ms] = map (?row ms) [0..<length ms]"
  proof (rule map_cong [OF refl])
    fix i assume "i \<in> set [0..<length ms]"
    then have i: "i < length ms" by simp
    then have "(ms @ [m]) ! i = ms ! i" "(ms @ [m]) ! (i - 1) = ms ! (i - 1)"
      by (simp_all add: nth_append)
    with tw [OF i] show "?row (ms @ [m]) i = ?row ms i" by simp
  qed
  have lastrow: "?row (ms @ [m]) (length ms)
      = block (if ms = [] then None else Some (last ms)) (\<exists>x\<in>set ms. id_msg x \<in> u) u m"
  proof -
    have l: "ms \<noteq> [] \<Longrightarrow> (ms @ [m]) ! (length ms - 1) = last ms"
      by (simp add: nth_append last_conv_nth)
    have t: "length ms = length (takeWhile ?P (ms @ [m]))
        \<longleftrightarrow> id_msg m \<in> u \<and> \<not> (\<exists>x\<in>set ms. id_msg x \<in> u)"
    proof (cases "\<forall>x\<in>set ms. ?P x")
      case True
      then show ?thesis by (auto simp: takeWhile_append2)
    next
      case False
      then obtain x where x: "x \<in> set ms" "\<not> ?P x" by blast
      then have "takeWhile ?P (ms @ [m]) = takeWhile ?P ms" by (rule takeWhile_append1)
      moreover have "length (takeWhile ?P ms) < length ms"
      proof -
        from x have "dropWhile ?P ms \<noteq> []" by (auto simp: dropWhile_eq_Nil_conv)
        then have "0 < length (dropWhile ?P ms)" by simp
        moreover have "length (takeWhile ?P ms) + length (dropWhile ?P ms) = length ms"
        proof -
          have "length (takeWhile ?P ms @ dropWhile ?P ms) = length ms"
            by (simp only: takeWhile_dropWhile_id)
          then show ?thesis by (simp only: length_append)
        qed
        ultimately show ?thesis by linarith
      qed
      ultimately have "length ms \<noteq> length (takeWhile ?P (ms @ [m]))" by simp
      with False show ?thesis by blast
    qed
    show ?thesis
      unfolding t using l
      by (cases "ms = []") (simp_all add: block_def isSameDay_calendarDay)
  qed
  have "presentationSpec (ms @ [m]) u
      = concat (map (?row (ms @ [m])) [0..<length ms]) @ ?row (ms @ [m]) (length ms)"
    by (simp add: presentationSpec_def)
  also have "\<dots> = presentationSpec ms u @ ?row (ms @ [m]) (length ms)"
    unfolding rows by (simp add: presentationSpec_def)
  finally show ?thesis unfolding lastrow .
qed

lemma grouper_is_presentationSpec: "getMessagesWithDateSeparators ms u = presentationSpec ms u"
proof (induction ms rule: rev_induct)
  case Nil
  show ?case by (simp add: grouper_Nil presentationSpec_def)
next
  case (snoc m ms)
  then show ?case by (simp add: grouper_snoc presentationSpec_snoc)
qed

text \<open>
  Claim C9. A call of the grouper returns the same display sequence whatever its two
  variables held before the call, because it assigns them anew; so a second call on the
  same inputs, made after a first one, returns what the first returned. The sequence is
  the one that the stateless description of the display gives for the message list and
  the unread-id set; and two component states that agree on these two render the same
  sequence, whatever the rest of their state.
\<close>

theorem grouper_no_hidden_state:
  "fst (getMessagesWithDateSeparators_call before1 ms u)
     = fst (getMessagesWithDateSeparators_call before2 ms u) \<and>
   fst (getMessagesWithDateSeparators_call (getMessagesWithDateSeparators_call before1 ms u) ms u)
     = fst (getMessagesWithDateSeparators_call before1 ms u) \<and>
   fst (getMessagesWithDateSeparators_call before1 ms u) = presentationSpec ms u \<and>
   (messages s1 = messages s2 \<and> unreadMessageIds s1 = unreadMessageIds s2 \<longrightarrow>
      display s1 = display s2 \<and>
      display s1 = presentationSpec (messages s1) (unreadMessageIds s1))"
proof -
  have call: "fst (getMessagesWithDateSeparators_call b ms u) = getMessagesWithDateSeparators ms u"
    for b
    by (simp add: getMessagesWithDateSeparators_def getMessagesWithDateSeparators_call_def)
  show ?thesis
    by (simp add: call display_def grouper_is_presentationSpec)
qed

text \<open>
  A call that starts with the variables as a call that placed the unread marker would
  leave them (marker placed, flag up) still places the marker before \<open>m2\<close>.
\<close>

theorem grouper_no_hidden_state_witness:
  "fst (getMessagesWithDateSeparators_call ([UnreadItem], True) exampleChatMessages {''m2''})
     = [DateItem (exampleDate 1 100), MessageItem (exampleChatMessages ! 0), UnreadItem,
        MessageItem (exampleChatMessages ! 1), DateItem (exampleDate 2 50),
        MessageItem (exampleChatMessages ! 2)] \<and>
   fst (getMessagesWithDateSeparators_call ([], False) exampleChatMessages {''m2''})
     = [DateItem (exampleDate 1 100), MessageItem (exampleChatMessages ! 0), UnreadItem,
        MessageItem (exampleChatMessages ! 1), DateItem (exampleDate 2 50),
        MessageItem (exampleChatMessages ! 2)] \<and>
   presentationSpec exampleChatMessages {''m2''}
     = [DateItem (exampleDate 1 100), MessageItem (exampleChatMessages ! 0), UnreadItem,
        MessageItem (exampleChatMessages ! 1), DateItem (exampleDate 2 50),
        MessageItem (exampleChatMessages ! 2)] \<and>
   messages exampleWindow = messages (exampleWindow\<lparr>hasMarkedAsReadRef := False\<rparr>) \<and>
   unreadMessageIds exampleWindow = unreadMessageIds (exampleWindow\<lparr>hasMarkedAsReadRef := False\<rparr>) \<and>
   display exampleWindow = display (exampleWindow\<lparr>hasMarkedAsReadRef := False\<rparr>)"
proof -
  let ?out = "[DateItem (exampleDate 1 100), MessageItem (exampleChatMessages ! 0), UnreadItem,
        MessageItem (exampleChatMessages ! 1), DateItem (exampleDate 2 50),
        MessageItem (exampleChatMessages ! 2)]"
  let ?s2 = "exampleWindow\<lparr>hasMarkedAsReadRef := False\<rparr>"
  note t = grouper_no_hidden_state
    [of "([UnreadItem], True)" exampleChatMessages "{''m2''}" "([], False)" exampleWindow ?s2]
  have a: "fst (getMessagesWithDateSeparators_call ([], False) exampleChatMessages {''m2''}) = ?out"
    by (simp add: grouper_eval upt_rec)
  from t [THEN conjunct1] a
  have b: "fst (getMessagesWithDateSeparators_call ([UnreadItem], True) exampleChatMessages {''m2''}) = ?out"
    by (rule trans)
  from t [THEN conjunct2, THEN conjunct2, THEN conjunct1, symmetric] b
  have c: "presentationSpec exampleChatMessages {''m2''} = ?out"
    by (rule trans)
  have m: "messages exampleWindow = messages ?s2"
    "unreadMessageIds exampleWindow = unreadMessageIds ?s2" by simp_all
  with t [THEN conjunct2, THEN conjunct2, THEN conjunct2]
  have d: "display exampleWindow = display ?s2" by blast
  from a b c m d show ?thesis by blast
qed

lemmas machine_eval = mount_def runEffects_def resetGuardEffect_def subscriptionCleanup_def
  subscriptionEffect_def markAsReadEffect_def handleToggleTranslation_def
  handleSaveTranslationSettings_def handleLanguageChange_def handleDeleteLocalMessage_def
  handleDeleteMessageForEveryone_def deletedForEveryone_def deleteForEveryoneFailed_def
  deliver_def translationsSettled_def removeAt_def onMessages_def keepMessage_def
  translateMessage_def getDeletedMessagesForChat_def addLocalDeletedMessage_def
  exampleUser_def exampleTranslate_def Let_def

section \<open>Properties of the subscription callback\<close>

lemma Promise_all_map:
  "Promise_all (map f xs) = Resolved rs \<Longrightarrow> list_all2 (\<lambda>x r. f x = Resolved r) xs rs"
proof (induction xs arbitrary: rs)
  case Nil
  then show ?case by simp
next
  case (Cons x xs)
  then show ?case by (auto split: promise.splits)
qed

lemma Promise_all_resolves:
  "\<forall>x\<in>set xs. f x \<noteq> Rejected \<Longrightarrow> \<exists>rs. Promise_all (map f xs) = Resolved rs"
proof (induction xs)
  case Nil
  then show ?case by simp
next
  case (Cons x xs)
  then obtain rs where "Promise_all (map f xs) = Resolved rs" by auto
  moreover from Cons.prems obtain r where "f x = Resolved r" by (cases "f x") auto
  ultimately show ?case by simp
qed

lemma translateMessage_cases:
  assumes "translateMessage tr u language m = Resolved p"
  shows "if senderId m \<noteq> uid u \<and> truthy (originalText m)
         then \<exists>text translated. originalText m = Some text \<and> tr text language = Resolved translated
                \<and> p = m\<lparr>translatedText := Some translated\<rparr>
         else p = m"
  using assms
  by (auto simp: translateMessage_def truthy_def split: option.splits if_splits promise.splits)

lemma translateMessage_erase:
  "translateMessage tr u language m = Resolved p \<Longrightarrow>
     p\<lparr>translatedText := None\<rparr> = m\<lparr>translatedText := None\<rparr>"
  by (auto simp: translateMessage_def split: option.splits if_splits promise.splits)

lemma translateMessage_resolves:
  "(\<And>text. originalText m = Some text \<Longrightarrow> tr text language \<noteq> Rejected) \<Longrightarrow>
     translateMessage tr u language m \<noteq> Rejected"
  by (auto simp: translateMessage_def split: option.splits promise.splits)

lemma onMessages_off:
  "\<not> enabled \<or> user = None \<Longrightarrow>
     onMessages tr deleted blocked enabled user language fetched
       = Resolved (filter (keepMessage deleted blocked) fetched)"
  by (auto simp: onMessages_def Let_def split: option.splits)

lemma onMessages_on:
  "onMessages tr deleted blocked True (Some u) language fetched
     = Promise_all (map (translateMessage tr u language) (filter (keepMessage deleted blocked) fetched))"
  by (simp add: onMessages_def Let_def)

lemma onMessages_erase:
  assumes "onMessages tr deleted blocked enabled user language fetched = Resolved batch"
  shows "map (\<lambda>m. m\<lparr>translatedText := None\<rparr>) batch
           = map (\<lambda>m. m\<lparr>translatedText := None\<rparr>) (filter (keepMessage deleted blocked) fetched)"
proof (cases "enabled \<and> user \<noteq> None")
  case False
  then have "\<not> enabled \<or> user = None" by simp
  from onMessages_off [OF this] assms show ?thesis by simp
next
  case True
  then obtain u where u: "user = Some u" by auto
  let ?fs = "filter (keepMessage deleted blocked) fetched"
  from assms True u have "Promise_all (map (translateMessage tr u language) ?fs) = Resolved batch"
    by (simp add: onMessages_on)
  then have "list_all2 (\<lambda>m p. translateMessage tr u language m = Resolved p) ?fs batch"
    by (rule Promise_all_map)
  then have "list_all2 (\<lambda>m p. p\<lparr>translatedText := None\<rparr> = m\<lparr>translatedText := None\<rparr>) ?fs batch"
    by (rule list_all2_mono) (rule translateMessage_erase)
  then show ?thesis
    by (induction rule: list_all2_induct) simp_all
qed

lemma onMessages_kept:
  assumes "onMessages tr deleted blocked enabled user language fetched = Resolved batch"
    and "p \<in> set batch"
  shows "id_msg p \<notin> deleted \<and> senderId p \<notin> blocked"
proof -
  let ?e = "\<lambda>m. m\<lparr>translatedText := None\<rparr>"
  from assms(2) have "?e p \<in> set (map ?e batch)" by simp
  then have "?e p \<in> set (map ?e (filter (keepMessage deleted blocked) fetched))"
    unfolding onMessages_erase [OF assms(1)] .
  then obtain m where m: "m \<in> set fetched" "keepMessage deleted blocked m" "?e p = ?e m" by auto
  from m(3) have "id_msg (?e p) = id_msg (?e m)" "senderId (?e p) = senderId (?e m)" by simp_all
  then have "id_msg p = id_msg m" "senderId p = senderId m" by simp_all
  with m(2) show ?thesis by (simp add: keepMessage_def)
qed

lemma keepMessage_no_deleted:
  "\<forall>m\<in>set fetched. id_msg m \<notin> deleted \<Longrightarrow>
     filter (keepMessage deleted blocked) fetched = filter (\<lambda>m. senderId m \<notin> blocked) fetched"
  by (rule filter_cong) (simp_all add: keepMessage_def)

lemma step_keeps_ledger:
  "mid \<in> deletionLedger s c \<Longrightarrow> mid \<in> deletionLedger (fst (step tr s e)) c"
  by (cases e)
    (auto simp: runEffects_def resetGuardEffect_def subscriptionCleanup_def subscriptionEffect_def
      handleToggleTranslation_def handleSaveTranslationSettings_def handleLanguageChange_def
      handleDeleteLocalMessage_def addLocalDeletedMessage_def deliver_def translationsSettled_def
      handleDeleteMessageForEveryone_def deletedForEveryone_def deleteForEveryoneFailed_def Let_def
      split: option.splits promise.splits if_splits)

lemma run_keeps_ledger:
  "mid \<in> deletionLedger (fst c0) c \<Longrightarrow> mid \<in> deletionLedger (fst (run tr c0 es)) c"
  by (induction es arbitrary: c0) (simp_all add: step_keeps_ledger Let_def)

lemma translated_erase:
  assumes "Promise_all (map (translateMessage tr u language) kept) = Resolved batch"
  shows "map withoutTranslation batch = map withoutTranslation kept"
proof -
  from Promise_all_map [OF assms]
  have "list_all2 (\<lambda>m p. translateMessage tr u language m = Resolved p) kept batch" .
  then have "list_all2 (\<lambda>m p. withoutTranslation p = withoutTranslation m) kept batch"
    unfolding withoutTranslation_def
    by (rule list_all2_mono) (rule translateMessage_erase)
  then show ?thesis
    by (induction rule: list_all2_induct) simp_all
qed

lemma translated_pointwise:
  assumes "Promise_all (map (translateMessage tr u language) kept) = Resolved batch"
  shows "length batch = length kept \<and>
     (\<forall>i<length kept.
        (if senderId (kept ! i) \<noteq> uid u \<and> truthy (originalText (kept ! i))
         then \<exists>text translated.
                originalText (kept ! i) = Some text \<and> tr text language = Resolved translated \<and>
                batch ! i = (kept ! i)\<lparr>translatedText := Some translated\<rparr>
         else batch ! i = kept ! i) \<and>
        originalText (batch ! i) = originalText (kept ! i))"
proof -
  from Promise_all_map [OF assms]
  have l: "list_all2 (\<lambda>m p. translateMessage tr u language m = Resolved p) kept batch" .
  then have len: "length batch = length kept" by (simp add: list_all2_lengthD)
  have "(if senderId (kept ! i) \<noteq> uid u \<and> truthy (originalText (kept ! i))
         then \<exists>text translated.
                originalText (kept ! i) = Some text \<and> tr text language = Resolved translated \<and>
                batch ! i = (kept ! i)\<lparr>translatedText := Some translated\<rparr>
         else batch ! i = kept ! i) \<and>
        originalText (batch ! i) = originalText (kept ! i)"
    if i: "i < length kept" for i
  proof -
    from list_all2_nthD [OF l i]
    have t: "translateMessage tr u language (kept ! i) = Resolved (batch ! i)" .
    from translateMessage_erase [OF t]
    have "originalText ((batch ! i)\<lparr>translatedText := None\<rparr>)
        = originalText ((kept ! i)\<lparr>translatedText := None\<rparr>)"
      by simp
    then have o: "originalText (batch ! i) = originalText (kept ! i)" by simp
    from translateMessage_cases [OF t] o show ?thesis by simp
  qed
  with len show ?thesis by blast
qed

lemma translated_resolves:
  assumes "\<forall>m\<in>set kept. \<forall>text. originalText m = Some text \<longrightarrow> tr text language \<noteq> Rejected"
  shows "\<exists>batch. Promise_all (map (translateMessage tr u language) kept) = Resolved batch"
proof -
  have "\<forall>m\<in>set kept. translateMessage tr u language m \<noteq> Rejected"
  proof
    fix m assume "m \<in> set kept"
    with assms have "\<And>text. originalText m = Some text \<Longrightarrow> tr text language \<noteq> Rejected"
      by blast
    then show "translateMessage tr u language m \<noteq> Rejected"
      by (rule translateMessage_resolves)
  qed
  then show ?thesis by (rule Promise_all_resolves)
qed

section \<open>Properties of the chat list aggregator\<close>

lemma enrichChat_Some:
  assumes "enrichChat getUser hasChatMessages getUnreadCount user chat = Resolved (Some e)"
  shows "chatOf e = chat \<and> listable getUser hasChatMessages user chat \<and>
     (\<exists>other. find (\<lambda>i. i \<noteq> uid user) (participants chat) = Some other \<and>
        getUser other = Resolved (Some (otherUser e))) \<and>
     (\<exists>n. getUnreadCount (id_chat chat) (uid user) = Resolved n \<and> unreadCount e = Some n)"
  using assms
  by (auto simp: enrichChat_def chatOf_def listable_def
      split: if_splits option.splits promise.splits)

lemma enrichChat_None:
  assumes "enrichChat getUser hasChatMessages getUnreadCount user chat = Resolved None"
  shows "\<not> listable getUser hasChatMessages user chat"
  using assms
  by (auto simp: enrichChat_def listable_def split: if_splits option.splits promise.splits)

lemma map_filter_chatOf:
  assumes "list_all2 (\<lambda>c r. enrichChat getUser hasChatMessages getUnreadCount user c = Resolved r) cs rs"
  shows "map chatOf (List.map_filter (\<lambda>c. c) rs) = filter (listable getUser hasChatMessages user) cs"
  using assms
proof (induction rule: list_all2_induct)
  case Nil
  show ?case by (simp add: List.map_filter_simps)
next
  case (Cons c cs r rs)
  show ?case
  proof (cases r)
    case None
    with Cons show ?thesis
      by (simp add: List.map_filter_simps enrichChat_None)
  next
    case (Some e)
    with Cons.hyps(1) enrichChat_Some [of getUser hasChatMessages getUnreadCount user c e]
    have "chatOf e = c" "listable getUser hasChatMessages user c" by simp_all
    with Some Cons show ?thesis
      by (simp add: List.map_filter_simps)
  qed
qed

lemma map_filter_mem:
  assumes "list_all2 (\<lambda>c r. f c = Resolved r) cs rs" and "e \<in> set (List.map_filter (\<lambda>c. c) rs)"
  shows "\<exists>c\<in>set cs. f c = Resolved (Some e)"
  using assms
  by (induction rule: list_all2_induct) (auto simp: List.map_filter_simps split: option.splits)

lemma chat_list_resolved:
  assumes "onUserChats getUser hasChatMessages getUnreadCount user fetched = Resolved listed"
  shows
    "(\<forall>c\<in>set fetched.
        (deletedAt c \<noteq> None \<or>
         find (\<lambda>i. i \<noteq> uid user) (participants c) = None \<or>
         (\<exists>other. find (\<lambda>i. i \<noteq> uid user) (participants c) = Some other \<and>
            getUser other = Resolved None) \<or>
         hasChatMessages (id_chat c) = Resolved False) \<longrightarrow>
        c \<notin> chatOf ` set listed) \<and>
     (\<forall>e\<in>set listed.
        chatOf e \<in> set fetched \<and>
        (\<exists>other. find (\<lambda>i. i \<noteq> uid user) (participants e) = Some other \<and>
           getUser other = Resolved (Some (otherUser e))) \<and>
        (\<exists>n. getUnreadCount (id_chat e) (uid user) = Resolved n \<and> unreadCount e = Some n)) \<and>
     map chatOf listed = filter (listable getUser hasChatMessages user) fetched"
proof -
  let ?f = "enrichChat getUser hasChatMessages getUnreadCount user"
  from assms obtain rs where
    rs: "Promise_all (map ?f fetched) = Resolved rs" and
    listed: "listed = List.map_filter (\<lambda>c. c) rs"
    by (auto simp: onUserChats_def split: promise.splits)
  from Promise_all_map [OF rs] have l: "list_all2 (\<lambda>c r. ?f c = Resolved r) fetched rs" .
  have exact: "map chatOf listed = filter (listable getUser hasChatMessages user) fetched"
    unfolding listed using l by (rule map_filter_chatOf)
  have excl: "\<forall>c\<in>set fetched.
        (deletedAt c \<noteq> None \<or>
         find (\<lambda>i. i \<noteq> uid user) (participants c) = None \<or>
         (\<exists>other. find (\<lambda>i. i \<noteq> uid user) (participants c) = Some other \<and>
            getUser other = Resolved None) \<or>
         hasChatMessages (id_chat c) = Resolved False) \<longrightarrow>
        c \<notin> chatOf ` set listed"
  proof (intro ballI impI)
    fix c :: Chat
    assume d: "deletedAt c \<noteq> None \<or>
         find (\<lambda>i. i \<noteq> uid user) (participants c) = None \<or>
         (\<exists>other. find (\<lambda>i. i \<noteq> uid user) (participants c) = Some other \<and>
            getUser other = Resolved None) \<or>
         hasChatMessages (id_chat c) = Resolved False"
    then have "\<not> listable getUser hasChatMessages user c"
      by (auto simp: listable_def)
    then have "c \<notin> set (filter (listable getUser hasChatMessages user) fetched)" by simp
    then have "c \<notin> set (map chatOf listed)" unfolding exact .
    then show "c \<notin> chatOf ` set listed" by simp
  qed
  have carry: "\<forall>e\<in>set listed.
        chatOf e \<in> set fetched \<and>
        (\<exists>other. find (\<lambda>i. i \<noteq> uid user) (participants e) = Some other \<and>
           getUser other = Resolved (Some (otherUser e))) \<and>
        (\<exists>n. getUnreadCount (id_chat e) (uid user) = Resolved n \<and> unreadCount e = Some n)"
  proof
    fix e assume "e \<in> set listed"
    with map_filter_mem [OF l] listed obtain c where
      c: "c \<in> set fetched" "?f c = Resolved (Some e)" by blast
    from enrichChat_Some [OF c(2)] have
      e: "chatOf e = c"
        "\<exists>other. find (\<lambda>i. i \<noteq> uid user) (participants c) = Some other \<and>
           getUser other = Resolved (Some (otherUser e))"
        "\<exists>n. getUnreadCount (id_chat c) (uid user) = Resolved n \<and> unreadCount e = Some n"
      by blast+
    from e(1) have "participants e = participants c" "id_chat e = id_chat c"
      by (auto simp: chatOf_def)
    with c(1) e show "chatOf e \<in> set fetched \<and>
        (\<exists>other. find (\<lambda>i. i \<noteq> uid user) (participants e) = Some other \<and>
           getUser other = Resolved (Some (otherUser e))) \<and>
        (\<exists>n. getUnreadCount (id_chat e) (uid user) = Resolved n \<and> unreadCount e = Some n)"
      by simp
  qed
  from excl carry exact show ?thesis by blast
qed

lemma enrichChat_resolves:
  assumes "\<forall>i. getUser i \<noteq> Rejected" "\<forall>c. hasChatMessages c \<noteq> Rejected"
    "\<forall>c i. getUnreadCount c i \<noteq> Rejected"
  shows "enrichChat getUser hasChatMessages getUnreadCount user chat \<noteq> Rejected"
  using assms
  by (auto simp: enrichChat_def split: option.splits promise.splits)

text \<open>
  Claim C7. Whenever the callback sets the list: a fetched chat is not listed if it has a
  \<open>deletedAt\<close> marker, if no participant differs from the current user, if the profile
  of the counterpart resolves to nothing, or if the chat has no messages; every listed
  entry is a fetched chat carrying the resolved profile of its counterpart and its unread
  count; and the listed chats are exactly the fetched chats that pass these gates, in the
  fetched order. The list is set whenever no service call rejects.
\<close>

theorem chat_list_excludes:
  "(onUserChats getUser hasChatMessages getUnreadCount user fetched = Resolved listed \<longrightarrow>
      (\<forall>c\<in>set fetched.
         (deletedAt c \<noteq> None \<or>
          find (\<lambda>i. i \<noteq> uid user) (participants c) = None \<or>
          (\<exists>other. find (\<lambda>i. i \<noteq> uid user) (participants c) = Some other \<and>
             getUser other = Resolved None) \<or>
          hasChatMessages (id_chat c) = Resolved False) \<longrightarrow>
         c \<notin> chatOf ` set listed) \<and>
      (\<forall>e\<in>set listed.
         chatOf e \<in> set fetched \<and>
         (\<exists>other. find (\<lambda>i. i \<noteq> uid user) (participants e) = Some other \<and>
            getUser other = Resolved (Some (otherUser e))) \<and>
         (\<exists>n. getUnreadCount (id_chat e) (uid user) = Resolved n \<and> unreadCount e = Some n)) \<and>
      map chatOf listed = filter (listable getUser hasChatMessages user) fetched) \<and>
   ((\<forall>i. getUser i \<noteq> Rejected) \<and> (\<forall>c. hasChatMessages c \<noteq> Rejected) \<and>
    (\<forall>c i. getUnreadCount c i \<noteq> Rejected) \<longrightarrow>
      (\<exists>published. onUserChats getUser hasChatMessages getUnreadCount user fetched
         = Resolved published))"
proof (intro conjI impI)
  assume "(\<forall>i. getUser i \<noteq> Rejected) \<and> (\<forall>c. hasChatMessages c \<noteq> Rejected) \<and>
    (\<forall>c i. getUnreadCount c i \<noteq> Rejected)"
  then have "\<forall>c\<in>set fetched. enrichChat getUser hasChatMessages getUnreadCount user c \<noteq> Rejected"
    by (simp add: enrichChat_resolves)
  from Promise_all_resolves [OF this]
  show "\<exists>published. onUserChats getUser hasChatMessages getUnreadCount user fetched
         = Resolved published"
    by (auto simp: onUserChats_def)
qed (use chat_list_resolved in blast)+

text \<open>
  Of five chats (one listable, one without messages, one deleted, one without a
  counterpart, one whose counterpart has no profile) only the first is listed.
\<close>

theorem chat_list_excludes_witness:
  "onUserChats exampleGetUser exampleHasChatMessages exampleGetUnreadCount (exampleUser ''alice'')
      exampleChats
     = Resolved
        [\<lparr>id_chat = ''c1'', participants = [''alice'', ''bob''], lastMessage = [],
          lastMessageTime = exampleDate 1 0, deletedAt = None,
          otherUser = exampleUser ''bob'', unreadCount = Some 2\<rparr>] \<and>
   exampleChat ''c2'' [''bob'', ''alice''] None
     \<notin> chatOf ` set
        [\<lparr>id_chat = ''c1'', participants = [''alice'', ''bob''], lastMessage = [],
          lastMessageTime = exampleDate 1 0, deletedAt = None,
          otherUser = exampleUser ''bob'', unreadCount = Some 2\<rparr>]"
proof -
  let ?listed = "[\<lparr>id_chat = ''c1'', participants = [''alice'', ''bob''], lastMessage = [],
          lastMessageTime = exampleDate 1 0, deletedAt = None,
          otherUser = exampleUser ''bob'', unreadCount = Some 2\<rparr>]"
  have a: "onUserChats exampleGetUser exampleHasChatMessages exampleGetUnreadCount
      (exampleUser ''alice'') exampleChats = Resolved ?listed"
    by (simp add: onUserChats_def enrichChat_def exampleChats_def exampleChat_def
        exampleGetUser_def exampleHasChatMessages_def exampleGetUnreadCount_def exampleUser_def
        List.map_filter_simps)
  have m: "exampleChat ''c2'' [''bob'', ''alice''] None \<in> set exampleChats"
    by (simp add: exampleChats_def)
  have h2: "exampleHasChatMessages (id_chat (exampleChat ''c2'' [''bob'', ''alice''] None)) = Resolved False"
    by (simp add: exampleHasChatMessages_def exampleChat_def)
  note t = chat_list_excludes
    [of exampleGetUser exampleHasChatMessages exampleGetUnreadCount "exampleUser ''alice''"
       exampleChats ?listed, THEN conjunct1, THEN mp, OF a, THEN conjunct1, rule_format, OF m]
  from t h2 have "exampleChat ''c2'' [''bob'', ''alice''] None \<notin> chatOf ` set ?listed"
    by blast
  with a show ?thesis by blast
qed

section \<open>Properties of the ChatWindow state machine\<close>

subsection \<open>The example states\<close>


lemma exampleTranslatedWindow_eq:
  "exampleTranslatedWindow =
     \<lparr>chatId = ''c1'', currentUser = Some (exampleUser ''alice''), blockedUsers = {},
      messages =
        [(exampleMessage ''m1'' ''bob'' ''Hola'' (exampleDate 1 100))\<lparr>translatedText := Some ''Hello''\<rparr>,
         exampleMessage ''m3'' ''alice'' ''Bien'' (exampleDate 2 50)],
      translationEnabled = True, targetLanguage = ''en'',
      showSettings = False, unreadMessageIds = {}, hasMarkedAsReadRef = True,
      subscription =
        Some \<lparr>closed_chatId = ''c1'', closed_blockedUsers = {}, closed_translationEnabled = True,
              closed_targetLanguage = ''en'', closed_currentUser = exampleUser ''alice''\<rparr>,
      inFlight = [], deleting = [], deletionLedger = (\<lambda>c. {})\<rparr>"
  by (simp add: exampleTranslatedWindow_def machine_eval exampleMessage_def)

subsection \<open>The closure of the live subscription\<close>

text \<open>
  In every state reached from a mount the live subscription, if there is one, closed over
  the current values of the state: the subscription effect runs again whenever one of
  them changes.
\<close>

lemma closureOf_runEffects: "closureOf (fst (runEffects a b c s)) = closureOf s"
  by (simp add: closureOf_def runEffects_def resetGuardEffect_def subscriptionCleanup_def
      subscriptionEffect_def Let_def split: option.splits)

lemma runEffects_subscribes: "subscription (fst (runEffects a True c s)) = closureOf s"
  by (simp add: closureOf_def runEffects_def resetGuardEffect_def subscriptionCleanup_def
      subscriptionEffect_def Let_def split: option.splits)

lemma runEffects_idle: "fst (runEffects False False c s) = s"
  by (simp add: runEffects_def)

lemma runEffects_synced:
  assumes "\<not> b \<Longrightarrow> \<not> a \<and> subscription s = closureOf s"
  shows "subscription (fst (runEffects a b c s)) = closureOf (fst (runEffects a b c s))"
proof (cases b)
  case True
  then show ?thesis by (simp add: runEffects_subscribes closureOf_runEffects)
next
  case False
  with assms show ?thesis by (simp add: runEffects_idle)
qed

lemma handler_synced:
  assumes "subscription s = closureOf s"
  shows "subscription (fst (handleToggleTranslation s)) = closureOf (fst (handleToggleTranslation s))"
    and "subscription (fst (handleSaveTranslationSettings enabled language s))
          = closureOf (fst (handleSaveTranslationSettings enabled language s))"
    and "subscription (fst (handleLanguageChange language s))
          = closureOf (fst (handleLanguageChange language s))"
proof -
  show "subscription (fst (handleToggleTranslation s)) = closureOf (fst (handleToggleTranslation s))"
  proof (cases "translationEnabled s")
    case True
    then show ?thesis
      by (simp add: handleToggleTranslation_def Let_def runEffects_subscribes closureOf_runEffects)
  next
    case False
    with assms show ?thesis by (simp add: handleToggleTranslation_def closureOf_def split: option.splits)
  qed
  show "subscription (fst (handleSaveTranslationSettings enabled language s))
          = closureOf (fst (handleSaveTranslationSettings enabled language s))"
  proof (cases "currentUser s")
    case None
    with assms show ?thesis by (simp add: handleSaveTranslationSettings_def)
  next
    case (Some u)
    show ?thesis
    proof (cases "enabled \<noteq> translationEnabled s \<or> language \<noteq> targetLanguage s")
      case True
      with Some show ?thesis
        by (simp add: handleSaveTranslationSettings_def Let_def runEffects_subscribes
            closureOf_runEffects)
    next
      case False
      with Some assms show ?thesis
        by (simp add: handleSaveTranslationSettings_def Let_def runEffects_idle)
    qed
  qed
  show "subscription (fst (handleLanguageChange language s))
          = closureOf (fst (handleLanguageChange language s))"
  proof (cases "currentUser s")
    case None
    with assms show ?thesis by (simp add: handleLanguageChange_def)
  next
    case (Some u)
    show ?thesis
    proof (cases "language \<noteq> targetLanguage s")
      case True
      with Some show ?thesis
        by (simp add: handleLanguageChange_def Let_def runEffects_subscribes closureOf_runEffects)
    next
      case False
      with Some assms show ?thesis
        by (simp add: handleLanguageChange_def Let_def runEffects_idle)
    qed
  qed
qed

lemma step_synced:
  assumes "subscription s = closureOf s"
  shows "subscription (fst (step tr s e)) = closureOf (fst (step tr s e))"
proof (cases e)
  case (ChatIdChanged c)
  show ?thesis
  proof (cases "c = chatId s")
    case True
    with ChatIdChanged assms show ?thesis by (simp add: runEffects_idle)
  next
    case False
    with ChatIdChanged show ?thesis
      by (simp add: runEffects_subscribes closureOf_runEffects)
  qed
next
  case (CurrentUserChanged u)
  then show ?thesis by (simp add: runEffects_subscribes closureOf_runEffects)
next
  case (BlockedUsersChanged b)
  then show ?thesis by (simp add: runEffects_subscribes closureOf_runEffects)
next
  case (SettingsLoaded enabled language)
  show ?thesis
  proof (cases "enabled \<noteq> translationEnabled s \<or> language \<noteq> targetLanguage s")
    case True
    with SettingsLoaded show ?thesis by (simp add: runEffects_subscribes closureOf_runEffects)
  next
    case False
    with SettingsLoaded assms show ?thesis by (simp add: runEffects_idle)
  qed
next
  case ToggleTranslation
  with handler_synced(1) [OF assms] show ?thesis by simp
next
  case (SaveTranslationSettings enabled language)
  with handler_synced(2) [OF assms] show ?thesis by simp
next
  case (LanguageChange language)
  with handler_synced(3) [OF assms] show ?thesis by simp
next
  case SettingsClosed
  with assms show ?thesis by (simp add: closureOf_def split: option.splits)
next
  case (DeleteLocalMessage m)
  with assms show ?thesis by (simp add: closureOf_def handleDeleteLocalMessage_def split: option.splits)
next
  case (DeleteForEveryone m)
  with assms show ?thesis by (simp add: closureOf_def handleDeleteMessageForEveryone_def split: option.splits)
next
  case (DeletedForEveryone k)
  with assms show ?thesis by (simp add: closureOf_def deletedForEveryone_def split: option.splits)
next
  case (DeleteForEveryoneFailed k)
  with assms show ?thesis by (simp add: closureOf_def deleteForEveryoneFailed_def split: option.splits)
next
  case (UnreadResolved ms)
  with assms show ?thesis by (simp add: closureOf_def split: option.splits)
next
  case MarkReadResolved
  with assms show ?thesis by (simp add: closureOf_def split: option.splits)
next
  case (Delivery fetched)
  with assms show ?thesis
    by (simp add: closureOf_def deliver_def Let_def split: option.splits promise.splits)
next
  case (TranslationsSettled k)
  with assms show ?thesis
    by (simp add: closureOf_def translationsSettled_def split: promise.splits option.splits)
qed

lemma run_synced:
  "subscription (fst c) = closureOf (fst c) \<Longrightarrow>
     subscription (fst (run tr c es)) = closureOf (fst (run tr c es))"
  by (induction es arbitrary: c) (simp_all add: step_synced Let_def)

lemma mount_synced:
  "subscription (fst (mount chat user blocked enabled language ledger))
     = closureOf (fst (mount chat user blocked enabled language ledger))"
  by (simp add: mount_def runEffects_subscribes closureOf_runEffects)

lemma reachable_closure:
  assumes "subscription (fst (run tr (mount chat user blocked enabled language ledger) es)) = Some c"
  shows "closed_chatId c = chatId (fst (run tr (mount chat user blocked enabled language ledger) es)) \<and>
     closed_blockedUsers c = blockedUsers (fst (run tr (mount chat user blocked enabled language ledger) es)) \<and>
     closed_translationEnabled c
       = translationEnabled (fst (run tr (mount chat user blocked enabled language ledger) es)) \<and>
     closed_targetLanguage c
       = targetLanguage (fst (run tr (mount chat user blocked enabled language ledger) es)) \<and>
     currentUser (fst (run tr (mount chat user blocked enabled language ledger) es))
       = Some (closed_currentUser c)"
proof -
  let ?s = "fst (run tr (mount chat user blocked enabled language ledger) es)"
  have "subscription ?s = closureOf ?s"
    by (rule run_synced) (rule mount_synced)
  with assms have "closureOf ?s = Some c" by simp
  then show ?thesis
    by (auto simp: closureOf_def split: option.splits if_splits)
qed

subsection \<open>What a delivery publishes\<close>

lemma keptOf_keepMessage:
  "keptOf s c fetched
     = filter (keepMessage (getDeletedMessagesForChat (deletionLedger s) (closed_chatId c))
                 (closed_blockedUsers c)) fetched"
  unfolding keptOf_def
  by (rule filter_cong)
    (simp_all add: keepMessage_def isMessageLocallyDeleted_def getDeletedMessagesForChat_def)

lemma deliver_off:
  assumes "subscription s = Some c" "\<not> closed_translationEnabled c"
  shows "deliver tr fetched s = s\<lparr>messages := keptOf s c fetched\<rparr>"
  using assms by (simp add: deliver_def Let_def onMessages_off keptOf_keepMessage)

lemma deliver_on:
  assumes "subscription s = Some c" "closed_translationEnabled c"
  shows "deliver tr fetched s =
     s\<lparr>inFlight := inFlight s @
        [Promise_all (map (translateMessage tr (closed_currentUser c) (closed_targetLanguage c))
           (keptOf s c fetched))]\<rparr>"
  using assms by (simp add: deliver_def Let_def onMessages_on keptOf_keepMessage)

lemma deliver_none: "subscription s = None \<Longrightarrow> deliver tr fetched s = s"
  by (simp add: deliver_def)

lemma settle_messages:
  "k < length (inFlight s) \<Longrightarrow> inFlight s ! k = Resolved batch \<Longrightarrow>
     messages (translationsSettled k s) = batch"
  by (simp add: translationsSettled_def)

lemma settle_queued:
  "messages (translationsSettled (length xs) (s\<lparr>inFlight := xs @ [Resolved batch]\<rparr>)) = batch"
  by (simp add: translationsSettled_def)

lemma step_keeps_inFlight:
  "(\<forall>f. e \<noteq> Delivery f) \<and> (\<forall>k. e \<noteq> TranslationsSettled k) \<Longrightarrow>
     inFlight (fst (step tr s e)) = inFlight s"
  by (cases e)
    (simp_all add: runEffects_def resetGuardEffect_def subscriptionCleanup_def
      subscriptionEffect_def handleToggleTranslation_def handleSaveTranslationSettings_def
      handleLanguageChange_def handleDeleteLocalMessage_def handleDeleteMessageForEveryone_def
      deletedForEveryone_def deleteForEveryoneFailed_def Let_def split: option.splits)

text \<open>
  Claim C4. A delivery on the live subscription publishes the delivered messages without
  those whose id is in the Deletion Ledger of the chat or whose sender is in the block
  set, and no others are excluded: at once when the callback has translation off, and,
  when it has translation on, as the batch that joins the runs in flight and becomes the
  message list when it settles, equal to the kept messages up to the translations
  attached. A waiting batch is published as it is and no other event changes the waiting
  batches. In a state reached from a mount the chat and the block set of the callback are
  those of the state. An id recorded by \<open>handleDeleteLocalMessage\<close> is in the ledger of
  that chat after every later run of events, so no later delivery for that chat keeps a
  message with that id; and when no delivered message is in the ledger the deletion test
  removes nothing.
\<close>

theorem delivery_excludes_deleted_and_blocked:
  "(subscription s = Some c \<longrightarrow>
      (\<not> closed_translationEnabled c \<longrightarrow>
         messages (fst (step tr s (Delivery fetched))) = keptOf s c fetched \<and>
         inFlight (fst (step tr s (Delivery fetched))) = inFlight s) \<and>
      (closed_translationEnabled c \<longrightarrow>
         messages (fst (step tr s (Delivery fetched))) = messages s \<and>
         (\<exists>outcome.
            inFlight (fst (step tr s (Delivery fetched))) = inFlight s @ [outcome] \<and>
            (\<forall>batch. outcome = Resolved batch \<longrightarrow>
               map withoutTranslation batch = map withoutTranslation (keptOf s c fetched) \<and>
               messages (fst (step tr (fst (step tr s (Delivery fetched)))
                  (TranslationsSettled (length (inFlight s))))) = batch))) \<and>
      (\<forall>m\<in>set fetched.
         m \<in> set (keptOf s c fetched) \<longleftrightarrow>
           \<not> (isMessageLocallyDeleted (deletionLedger s) (closed_chatId c) (id_msg m) \<or>
              senderId m \<in> closed_blockedUsers c)) \<and>
      (isMessageLocallyDeleted (deletionLedger s) (closed_chatId c) mid \<longrightarrow>
         mid \<notin> id_msg ` set (keptOf s c fetched)) \<and>
      ((\<forall>m\<in>set fetched. \<not> isMessageLocallyDeleted (deletionLedger s) (closed_chatId c) (id_msg m)) \<longrightarrow>
         keptOf s c fetched = filter (\<lambda>m. senderId m \<notin> closed_blockedUsers c) fetched)) \<and>
   (subscription s = None \<longrightarrow> fst (step tr s (Delivery fetched)) = s) \<and>
   (k < length (inFlight s) \<and> inFlight s ! k = Resolved published \<longrightarrow>
      messages (fst (step tr s (TranslationsSettled k))) = published) \<and>
   ((\<forall>f. e \<noteq> Delivery f) \<and> (\<forall>k. e \<noteq> TranslationsSettled k) \<longrightarrow>
      inFlight (fst (step tr s e)) = inFlight s) \<and>
   (subscription (fst (run tr (mount chat user blocked enabled language ledger) es)) = Some c' \<longrightarrow>
      closed_chatId c' = chatId (fst (run tr (mount chat user blocked enabled language ledger) es)) \<and>
      closed_blockedUsers c'
        = blockedUsers (fst (run tr (mount chat user blocked enabled language ledger) es))) \<and>
   isMessageLocallyDeleted
     (deletionLedger (fst (run tr (handleDeleteLocalMessage mid s, rs) es))) (chatId s) mid \<and>
   (closed_chatId c' = chatId s \<longrightarrow>
      mid \<notin> id_msg ` set (keptOf (fst (run tr (handleDeleteLocalMessage mid s, rs) es)) c' fetched))"
proof -
  have off: "messages (fst (step tr s (Delivery fetched))) = keptOf s c fetched \<and>
         inFlight (fst (step tr s (Delivery fetched))) = inFlight s"
    if "subscription s = Some c" "\<not> closed_translationEnabled c"
    using that by (simp add: deliver_off)
  have on: "messages (fst (step tr s (Delivery fetched))) = messages s \<and>
         (\<exists>outcome.
            inFlight (fst (step tr s (Delivery fetched))) = inFlight s @ [outcome] \<and>
            (\<forall>batch. outcome = Resolved batch \<longrightarrow>
               map withoutTranslation batch = map withoutTranslation (keptOf s c fetched) \<and>
               messages (fst (step tr (fst (step tr s (Delivery fetched)))
                  (TranslationsSettled (length (inFlight s))))) = batch))"
    if c: "subscription s = Some c" "closed_translationEnabled c"
  proof -
    let ?o = "Promise_all (map (translateMessage tr (closed_currentUser c) (closed_targetLanguage c))
           (keptOf s c fetched))"
    have d: "fst (step tr s (Delivery fetched)) = s\<lparr>inFlight := inFlight s @ [?o]\<rparr>"
      using deliver_on [OF c] by simp
    have "\<forall>batch. ?o = Resolved batch \<longrightarrow>
               map withoutTranslation batch = map withoutTranslation (keptOf s c fetched) \<and>
               messages (fst (step tr (fst (step tr s (Delivery fetched)))
                  (TranslationsSettled (length (inFlight s))))) = batch"
    proof (intro allI impI conjI)
      fix batch assume b: "?o = Resolved batch"
      then show "map withoutTranslation batch = map withoutTranslation (keptOf s c fetched)"
        by (rule translated_erase)
      show "messages (fst (step tr (fst (step tr s (Delivery fetched)))
                  (TranslationsSettled (length (inFlight s))))) = batch"
        unfolding d b by (simp add: settle_queued)
    qed
    with d show ?thesis by simp
  qed
  have exact: "\<forall>m\<in>set fetched.
         m \<in> set (keptOf s c fetched) \<longleftrightarrow>
           \<not> (isMessageLocallyDeleted (deletionLedger s) (closed_chatId c) (id_msg m) \<or>
              senderId m \<in> closed_blockedUsers c)"
    by (simp add: keptOf_def)
  have gone: "mid \<notin> id_msg ` set (keptOf s c fetched)"
    if "isMessageLocallyDeleted (deletionLedger s) (closed_chatId c) mid"
    using that by (auto simp: keptOf_def)
  have noop: "keptOf s c fetched = filter (\<lambda>m. senderId m \<notin> closed_blockedUsers c) fetched"
    if "\<forall>m\<in>set fetched. \<not> isMessageLocallyDeleted (deletionLedger s) (closed_chatId c) (id_msg m)"
    unfolding keptOf_def using that by (intro filter_cong) simp_all
  have none: "fst (step tr s (Delivery fetched)) = s" if "subscription s = None"
    using that by (simp add: deliver_none)
  have settle: "messages (fst (step tr s (TranslationsSettled k))) = published"
    if "k < length (inFlight s) \<and> inFlight s ! k = Resolved published"
    using that by (simp add: settle_messages)
  have keep: "inFlight (fst (step tr s e)) = inFlight s"
    if "(\<forall>f. e \<noteq> Delivery f) \<and> (\<forall>k. e \<noteq> TranslationsSettled k)"
    using that by (rule step_keeps_inFlight)
  have sync: "closed_chatId c' = chatId (fst (run tr (mount chat user blocked enabled language ledger) es)) \<and>
      closed_blockedUsers c'
        = blockedUsers (fst (run tr (mount chat user blocked enabled language ledger) es))"
    if "subscription (fst (run tr (mount chat user blocked enabled language ledger) es)) = Some c'"
    using reachable_closure [OF that] by simp
  have "mid \<in> deletionLedger (fst (handleDeleteLocalMessage mid s, rs)) (chatId s)"
    by (simp add: handleDeleteLocalMessage_def addLocalDeletedMessage_def)
  then have "mid \<in> deletionLedger (fst (run tr (handleDeleteLocalMessage mid s, rs) es)) (chatId s)"
    by (rule run_keeps_ledger)
  then have led: "isMessageLocallyDeleted
     (deletionLedger (fst (run tr (handleDeleteLocalMessage mid s, rs) es))) (chatId s) mid"
    by (simp add: isMessageLocallyDeleted_def)
  have redelivered:
    "mid \<notin> id_msg ` set (keptOf (fst (run tr (handleDeleteLocalMessage mid s, rs) es)) c' fetched)"
    if "closed_chatId c' = chatId s"
    using led that by (auto simp: keptOf_def)
  from off on exact gone noop none settle keep sync led redelivered show ?thesis by blast
qed

text \<open>
  The translated window after \<open>m2\<close> is deleted locally and \<open>carol\<close> is blocked: a
  redelivery of the history with a message of \<open>carol\<close> waits for its translations and
  then publishes \<open>m1\<close> and \<open>m3\<close> only.
\<close>

theorem delivery_excludes_deleted_and_blocked_witness:
  "subscription (fst (run exampleTranslate (handleDeleteLocalMessage ''m2'' exampleTranslatedWindow, [])
       [BlockedUsersChanged {''carol''}]))
     = Some \<lparr>closed_chatId = ''c1'', closed_blockedUsers = {''carol''},
             closed_translationEnabled = True, closed_targetLanguage = ''en'',
             closed_currentUser = exampleUser ''alice''\<rparr> \<and>
   ''c1'' = chatId exampleTranslatedWindow \<and>
   ''m2'' \<notin> id_msg ` set
      (keptOf (fst (run exampleTranslate (handleDeleteLocalMessage ''m2'' exampleTranslatedWindow, [])
                 [BlockedUsersChanged {''carol''}]))
         \<lparr>closed_chatId = ''c1'', closed_blockedUsers = {''carol''},
          closed_translationEnabled = True, closed_targetLanguage = ''en'',
          closed_currentUser = exampleUser ''alice''\<rparr>
         exampleFetched) \<and>
   inFlight (fst (run exampleTranslate (handleDeleteLocalMessage ''m2'' exampleTranslatedWindow, [])
       [BlockedUsersChanged {''carol''}, Delivery exampleFetched]))
     = [Resolved [(exampleChatMessages ! 0)\<lparr>translatedText := Some ''Hello''\<rparr>,
                  exampleChatMessages ! 2]] \<and>
   messages (fst (run exampleTranslate (handleDeleteLocalMessage ''m2'' exampleTranslatedWindow, [])
       [BlockedUsersChanged {''carol''}, Delivery exampleFetched, TranslationsSettled 0]))
     = [(exampleChatMessages ! 0)\<lparr>translatedText := Some ''Hello''\<rparr>, exampleChatMessages ! 2]"
proof -
  let ?c = "\<lparr>closed_chatId = ''c1'', closed_blockedUsers = {''carol''},
             closed_translationEnabled = True, closed_targetLanguage = ''en'',
             closed_currentUser = exampleUser ''alice''\<rparr>"
  let ?s = "fst (run exampleTranslate (handleDeleteLocalMessage ''m2'' exampleTranslatedWindow, [])
       [BlockedUsersChanged {''carol''}])"
  have sub: "subscription ?s = Some ?c"
    by (simp add: exampleTranslatedWindow_eq machine_eval)
  have chat: "''c1'' = chatId exampleTranslatedWindow"
    by (simp add: exampleTranslatedWindow_eq)
  then have cc: "closed_chatId ?c = chatId exampleTranslatedWindow" by simp
  have gone: "''m2'' \<notin> id_msg ` set (keptOf ?s ?c exampleFetched)"
    using delivery_excludes_deleted_and_blocked
      [where s = exampleTranslatedWindow and tr = exampleTranslate and mid = "''m2''"
         and c' = ?c and rs = "[]" and es = "[BlockedUsersChanged {''carol''}]"
         and fetched = exampleFetched] cc
    by blast
  have m1: "inFlight (fst (run exampleTranslate (handleDeleteLocalMessage ''m2'' exampleTranslatedWindow, [])
       [BlockedUsersChanged {''carol''}, Delivery exampleFetched]))
     = [Resolved [(exampleChatMessages ! 0)\<lparr>translatedText := Some ''Hello''\<rparr>,
                  exampleChatMessages ! 2]]"
    by (simp add: exampleTranslatedWindow_eq machine_eval exampleFetched_def exampleChatMessages_def
        exampleMessage_def)
  have m2: "messages (fst (run exampleTranslate (handleDeleteLocalMessage ''m2'' exampleTranslatedWindow, [])
       [BlockedUsersChanged {''carol''}, Delivery exampleFetched, TranslationsSettled 0]))
     = [(exampleChatMessages ! 0)\<lparr>translatedText := Some ''Hello''\<rparr>, exampleChatMessages ! 2]"
    by (simp add: exampleTranslatedWindow_eq machine_eval exampleFetched_def exampleChatMessages_def
        exampleMessage_def)
  from sub chat gone m1 m2 show ?thesis by blast
qed

text \<open>
  Claim C5. A delivery to a callback with translation on leaves the message list as it is
  and adds one run in flight, which resolves whenever no translation rejects. When it
  settles resolved, the message list becomes its batch, which has one message for each
  kept message, in order: a message of another sender that carries text is the kept
  message with \<open>translatedText\<close> set to the translation of its original text into the
  target language, every other message is the kept message itself, and the original text
  is the same in both. When it settles rejected the message list stays. In a state
  reached from a mount the translation flag, the target language and the user of the
  callback are those of the state.
\<close>

theorem translation_attached:
  "(subscription s = Some c \<and> closed_translationEnabled c \<longrightarrow>
      messages (fst (step tr s (Delivery fetched))) = messages s \<and>
      (\<exists>outcome.
         inFlight (fst (step tr s (Delivery fetched))) = inFlight s @ [outcome] \<and>
         ((\<forall>m\<in>set fetched. \<forall>text. originalText m = Some text \<longrightarrow>
              tr text (closed_targetLanguage c) \<noteq> Rejected) \<longrightarrow> outcome \<noteq> Rejected) \<and>
         (outcome = Rejected \<longrightarrow>
            messages (fst (step tr (fst (step tr s (Delivery fetched)))
               (TranslationsSettled (length (inFlight s))))) = messages s) \<and>
         (\<forall>batch. outcome = Resolved batch \<longrightarrow>
            messages (fst (step tr (fst (step tr s (Delivery fetched)))
               (TranslationsSettled (length (inFlight s))))) = batch \<and>
            length batch = length (keptOf s c fetched) \<and>
            (\<forall>i<length (keptOf s c fetched).
               (if senderId (keptOf s c fetched ! i) \<noteq> uid (closed_currentUser c) \<and>
                   truthy (originalText (keptOf s c fetched ! i))
                then \<exists>text translated.
                       originalText (keptOf s c fetched ! i) = Some text \<and>
                       tr text (closed_targetLanguage c) = Resolved translated \<and>
                       batch ! i = (keptOf s c fetched ! i)\<lparr>translatedText := Some translated\<rparr>
                else batch ! i = keptOf s c fetched ! i) \<and>
               originalText (batch ! i) = originalText (keptOf s c fetched ! i))))) \<and>
   (subscription (fst (run tr (mount chat user blocked enabled language ledger) es)) = Some c' \<longrightarrow>
      closed_translationEnabled c'
        = translationEnabled (fst (run tr (mount chat user blocked enabled language ledger) es)) \<and>
      closed_targetLanguage c'
        = targetLanguage (fst (run tr (mount chat user blocked enabled language ledger) es)) \<and>
      currentUser (fst (run tr (mount chat user blocked enabled language ledger) es))
        = Some (closed_currentUser c'))"
proof (intro conjI impI)
  assume a: "subscription s = Some c \<and> closed_translationEnabled c"
  then have c: "subscription s = Some c" "closed_translationEnabled c" by simp_all
  let ?kept = "keptOf s c fetched"
  let ?o = "Promise_all (map (translateMessage tr (closed_currentUser c) (closed_targetLanguage c)) ?kept)"
  let ?s1 = "fst (step tr s (Delivery fetched))"
  have d: "?s1 = s\<lparr>inFlight := inFlight s @ [?o]\<rparr>"
    using deliver_on [OF c] by simp
  show "messages ?s1 = messages s" unfolding d by simp
  have q: "inFlight ?s1 = inFlight s @ [?o]" unfolding d by simp
  have live: "?o \<noteq> Rejected"
    if h: "\<forall>m\<in>set fetched. \<forall>text. originalText m = Some text \<longrightarrow>
              tr text (closed_targetLanguage c) \<noteq> Rejected"
  proof -
    have "set ?kept \<subseteq> set fetched" by (auto simp: keptOf_def)
    with h have "\<forall>m\<in>set ?kept. \<forall>text. originalText m = Some text \<longrightarrow>
              tr text (closed_targetLanguage c) \<noteq> Rejected"
      by blast
    then have "\<exists>batch. ?o = Resolved batch"
      by (rule translated_resolves [where tr = tr and language = "closed_targetLanguage c"])
    then show ?thesis by auto
  qed
  have rej: "messages (fst (step tr ?s1 (TranslationsSettled (length (inFlight s))))) = messages s"
    if "?o = Rejected"
    unfolding d that by (simp add: translationsSettled_def)
  have res: "messages (fst (step tr ?s1 (TranslationsSettled (length (inFlight s))))) = batch \<and>
            length batch = length ?kept \<and>
            (\<forall>i<length ?kept.
               (if senderId (?kept ! i) \<noteq> uid (closed_currentUser c) \<and>
                   truthy (originalText (?kept ! i))
                then \<exists>text translated.
                       originalText (?kept ! i) = Some text \<and>
                       tr text (closed_targetLanguage c) = Resolved translated \<and>
                       batch ! i = (?kept ! i)\<lparr>translatedText := Some translated\<rparr>
                else batch ! i = ?kept ! i) \<and>
               originalText (batch ! i) = originalText (?kept ! i))"
    if b: "?o = Resolved batch" for batch
  proof -
    have "messages (fst (step tr ?s1 (TranslationsSettled (length (inFlight s))))) = batch"
      unfolding d b by (simp add: settle_queued)
    with translated_pointwise [OF b] show ?thesis by blast
  qed
  from q live rej res
  show "\<exists>outcome.
         inFlight ?s1 = inFlight s @ [outcome] \<and>
         ((\<forall>m\<in>set fetched. \<forall>text. originalText m = Some text \<longrightarrow>
              tr text (closed_targetLanguage c) \<noteq> Rejected) \<longrightarrow> outcome \<noteq> Rejected) \<and>
         (outcome = Rejected \<longrightarrow>
            messages (fst (step tr ?s1 (TranslationsSettled (length (inFlight s))))) = messages s) \<and>
         (\<forall>batch. outcome = Resolved batch \<longrightarrow>
            messages (fst (step tr ?s1 (TranslationsSettled (length (inFlight s))))) = batch \<and>
            length batch = length ?kept \<and>
            (\<forall>i<length ?kept.
               (if senderId (?kept ! i) \<noteq> uid (closed_currentUser c) \<and>
                   truthy (originalText (?kept ! i))
                then \<exists>text translated.
                       originalText (?kept ! i) = Some text \<and>
                       tr text (closed_targetLanguage c) = Resolved translated \<and>
                       batch ! i = (?kept ! i)\<lparr>translatedText := Some translated\<rparr>
                else batch ! i = ?kept ! i) \<and>
               originalText (batch ! i) = originalText (?kept ! i)))"
    by blast
qed (use reachable_closure in blast)+

text \<open>
  The chat opened with translation on and target language \<open>en\<close>: the foreign message
  \<open>Hola\<close> is published with \<open>Hello\<close> attached and its original text unchanged, the
  user's own message as it is.
\<close>

theorem translation_attached_witness:
  "subscription (fst (mount ''c1'' (Some (exampleUser ''alice'')) {} True ''en'' (\<lambda>c. {})))
     = Some \<lparr>closed_chatId = ''c1'', closed_blockedUsers = {}, closed_translationEnabled = True,
             closed_targetLanguage = ''en'', closed_currentUser = exampleUser ''alice''\<rparr> \<and>
   inFlight (fst (step exampleTranslate
       (fst (mount ''c1'' (Some (exampleUser ''alice'')) {} True ''en'' (\<lambda>c. {})))
       (Delivery [exampleMessage ''m1'' ''bob'' ''Hola'' (exampleDate 1 100),
                  exampleMessage ''m3'' ''alice'' ''Bien'' (exampleDate 2 50)])))
     = [Resolved
         [(exampleMessage ''m1'' ''bob'' ''Hola'' (exampleDate 1 100))\<lparr>translatedText := Some ''Hello''\<rparr>,
          exampleMessage ''m3'' ''alice'' ''Bien'' (exampleDate 2 50)]] \<and>
   messages (fst (step exampleTranslate
       (fst (step exampleTranslate
          (fst (mount ''c1'' (Some (exampleUser ''alice'')) {} True ''en'' (\<lambda>c. {})))
          (Delivery [exampleMessage ''m1'' ''bob'' ''Hola'' (exampleDate 1 100),
                     exampleMessage ''m3'' ''alice'' ''Bien'' (exampleDate 2 50)])))
       (TranslationsSettled 0)))
     = [(exampleMessage ''m1'' ''bob'' ''Hola'' (exampleDate 1 100))\<lparr>translatedText := Some ''Hello''\<rparr>,
        exampleMessage ''m3'' ''alice'' ''Bien'' (exampleDate 2 50)] \<and>
   originalText
     ((exampleMessage ''m1'' ''bob'' ''Hola'' (exampleDate 1 100))\<lparr>translatedText := Some ''Hello''\<rparr>)
     = Some ''Hola''"
proof -
  let ?s = "fst (mount ''c1'' (Some (exampleUser ''alice'')) {} True ''en'' (\<lambda>c. {}))"
  let ?c = "\<lparr>closed_chatId = ''c1'', closed_blockedUsers = {}, closed_translationEnabled = True,
             closed_targetLanguage = ''en'', closed_currentUser = exampleUser ''alice''\<rparr>"
  let ?fetched = "[exampleMessage ''m1'' ''bob'' ''Hola'' (exampleDate 1 100),
                  exampleMessage ''m3'' ''alice'' ''Bien'' (exampleDate 2 50)]"
  let ?batch = "[(exampleMessage ''m1'' ''bob'' ''Hola'' (exampleDate 1 100))\<lparr>translatedText := Some ''Hello''\<rparr>,
          exampleMessage ''m3'' ''alice'' ''Bien'' (exampleDate 2 50)]"
  have sub: "subscription ?s = Some ?c" by (simp add: machine_eval)
  have en: "closed_translationEnabled ?c" by simp
  have q: "inFlight (fst (step exampleTranslate ?s (Delivery ?fetched))) = [Resolved ?batch]"
    by (simp add: machine_eval exampleMessage_def)
  have z: "inFlight ?s = []" by (simp add: machine_eval)
  from translation_attached
    [where s = ?s and c = ?c and tr = exampleTranslate and fetched = ?fetched,
      THEN conjunct1, THEN mp, OF conjI [OF sub en], THEN conjunct2]
  obtain outcome where
    o: "inFlight (fst (step exampleTranslate ?s (Delivery ?fetched))) = inFlight ?s @ [outcome]"
    and r: "\<forall>batch. outcome = Resolved batch \<longrightarrow>
            messages (fst (step exampleTranslate (fst (step exampleTranslate ?s (Delivery ?fetched)))
               (TranslationsSettled (length (inFlight ?s))))) = batch \<and>
            length batch = length (keptOf ?s ?c ?fetched) \<and>
            (\<forall>i<length (keptOf ?s ?c ?fetched).
               (if senderId (keptOf ?s ?c ?fetched ! i) \<noteq> uid (closed_currentUser ?c) \<and>
                   truthy (originalText (keptOf ?s ?c ?fetched ! i))
                then \<exists>text translated.
                       originalText (keptOf ?s ?c ?fetched ! i) = Some text \<and>
                       exampleTranslate text (closed_targetLanguage ?c) = Resolved translated \<and>
                       batch ! i = (keptOf ?s ?c ?fetched ! i)\<lparr>translatedText := Some translated\<rparr>
                else batch ! i = keptOf ?s ?c ?fetched ! i) \<and>
               originalText (batch ! i) = originalText (keptOf ?s ?c ?fetched ! i))"
    by blast
  from o q z have "outcome = Resolved ?batch" by simp
  with r have "messages (fst (step exampleTranslate (fst (step exampleTranslate ?s (Delivery ?fetched)))
               (TranslationsSettled (length (inFlight ?s))))) = ?batch"
    by blast
  then have p: "messages (fst (step exampleTranslate (fst (step exampleTranslate ?s (Delivery ?fetched)))
               (TranslationsSettled 0))) = ?batch"
    unfolding z by simp
  have t: "originalText
     ((exampleMessage ''m1'' ''bob'' ''Hola'' (exampleDate 1 100))\<lparr>translatedText := Some ''Hello''\<rparr>)
     = Some ''Hola''"
    by (simp add: exampleMessage_def)
  from sub q p t show ?thesis by blast
qed

subsection \<open>The snapshot guard\<close>

lemma snapshots_Nil: "snapshots [] = 0"
  by (simp add: snapshots_def)

lemma snapshots_append: "snapshots (xs @ ys) = snapshots xs + snapshots ys"
  by (simp add: snapshots_def)

lemma subscription_pending:
  "snapshots (snd (subscriptionEffect (fst (subscriptionCleanup s))))
     + (if hasMarkedAsReadRef (fst (subscriptionEffect (fst (subscriptionCleanup s)))) then 0 else 1)
   = (if hasMarkedAsReadRef s then 0 else 1)"
  by (simp add: subscriptionEffect_def subscriptionCleanup_def snapshots_def Let_def
      split: option.splits)

lemma subscriptionCleanup_snapshots: "snapshots (snd (subscriptionCleanup s)) = 0"
  by (simp add: subscriptionCleanup_def snapshots_def)

lemma markAsReadEffect_snapshots: "snapshots (markAsReadEffect s) = 0"
  by (simp add: markAsReadEffect_def snapshots_def split: option.splits)

lemma runEffects_pending:
  "pending (runEffects chatIdChanged subDeps readDeps s)
     = (if chatIdChanged then 1 else if hasMarkedAsReadRef s then 0 else 1)"
  if "chatIdChanged \<longrightarrow> subDeps"
  using that subscription_pending [of s] subscription_pending [of "resetGuardEffect s"]
  by (auto simp: pending_def runEffects_def Let_def snapshots_append snapshots_Nil
      subscriptionCleanup_snapshots markAsReadEffect_snapshots resetGuardEffect_def)

lemma runEffects_ref:
  "\<not> chatIdChanged \<Longrightarrow> hasMarkedAsReadRef s \<Longrightarrow>
     hasMarkedAsReadRef (fst (runEffects chatIdChanged subDeps readDeps s))"
  by (simp add: runEffects_def subscriptionEffect_def subscriptionCleanup_def Let_def
      split: option.splits)

lemma pending_prepend: "snapshots rs = 0 \<Longrightarrow> pending (fst c, rs @ snd c) = pending c"
  by (simp add: pending_def snapshots_append)

lemma pending_idle: "pending (s, []) = (if hasMarkedAsReadRef s then 0 else 1)"
  by (simp add: pending_def snapshots_Nil)

lemma handleToggleTranslation_pending:
  "pending (handleToggleTranslation s) = (if hasMarkedAsReadRef s then 0 else 1)"
proof (cases "translationEnabled s")
  case False
  then show ?thesis by (simp add: handleToggleTranslation_def pending_idle)
next
  case True
  have "snapshots (case currentUser s of None \<Rightarrow> []
      | Some u \<Rightarrow> [UpdateTranslationSettings (chatId s) (uid u) False (targetLanguage s)]) = 0"
    by (simp add: snapshots_def split: option.splits)
  with True show ?thesis
    by (simp add: handleToggleTranslation_def Let_def pending_prepend runEffects_pending)
qed

lemma handleSaveTranslationSettings_pending:
  "pending (handleSaveTranslationSettings enabled language s) = (if hasMarkedAsReadRef s then 0 else 1)"
proof (cases "currentUser s")
  case None
  then show ?thesis by (simp add: handleSaveTranslationSettings_def pending_idle)
next
  case (Some u)
  have "pending (fst c, SetSettings (chatId s) enabled language #
      UpdateTranslationSettings (chatId s) (uid u) enabled language # snd c) = pending c" for c
    using pending_prepend [of "[SetSettings (chatId s) enabled language,
      UpdateTranslationSettings (chatId s) (uid u) enabled language]" c]
    by (simp add: snapshots_def)
  with Some show ?thesis
    by (simp add: handleSaveTranslationSettings_def Let_def pending_prepend runEffects_pending)
qed

lemma handleLanguageChange_pending:
  "pending (handleLanguageChange language s) = (if hasMarkedAsReadRef s then 0 else 1)"
proof (cases "currentUser s")
  case None
  then show ?thesis by (simp add: handleLanguageChange_def pending_idle)
next
  case (Some u)
  have "pending (fst c, SetSettings (chatId s) (translationEnabled s) language #
      UpdateTranslationSettings (chatId s) (uid u) (translationEnabled s) language # snd c)
      = pending c" for c
    using pending_prepend [of "[SetSettings (chatId s) (translationEnabled s) language,
      UpdateTranslationSettings (chatId s) (uid u) (translationEnabled s) language]" c]
    by (simp add: snapshots_def)
  with Some show ?thesis
    by (simp add: handleLanguageChange_def Let_def pending_prepend runEffects_pending)
qed

lemma step_pending:
  "pending (step tr s e) \<le> (if hasMarkedAsReadRef s then 0 else 1) + (if opensChat s e then 1 else 0)"
proof (cases e)
  case (ChatIdChanged c)
  then show ?thesis by (simp add: runEffects_pending Let_def)
next
  case (CurrentUserChanged u)
  then show ?thesis by (simp add: runEffects_pending)
next
  case (BlockedUsersChanged b)
  then show ?thesis by (simp add: runEffects_pending)
next
  case (SettingsLoaded enabled language)
  then show ?thesis by (simp add: runEffects_pending)
next
  case ToggleTranslation
  then show ?thesis by (simp add: handleToggleTranslation_pending)
next
  case (SaveTranslationSettings enabled language)
  then show ?thesis by (simp add: handleSaveTranslationSettings_pending)
next
  case (LanguageChange language)
  then show ?thesis by (simp add: handleLanguageChange_pending)
next
  case SettingsClosed
  then show ?thesis by (simp add: pending_idle)
next
  case (DeleteLocalMessage messageId)
  then show ?thesis by (simp add: pending_idle handleDeleteLocalMessage_def)
next
  case (DeleteForEveryone messageId)
  then show ?thesis
    by (simp add: handleDeleteMessageForEveryone_def pending_def snapshots_def)
next
  case (DeletedForEveryone k)
  then show ?thesis by (simp add: pending_idle deletedForEveryone_def)
next
  case (DeleteForEveryoneFailed k)
  then show ?thesis by (simp add: pending_idle deleteForEveryoneFailed_def)
next
  case (UnreadResolved unreadMsgs)
  then show ?thesis by (simp add: pending_idle)
next
  case MarkReadResolved
  then show ?thesis by (simp add: pending_idle)
next
  case (Delivery fetched)
  then show ?thesis
    by (simp add: pending_idle deliver_def Let_def split: option.splits promise.splits)
next
  case (TranslationsSettled k)
  then show ?thesis
    by (simp add: pending_idle translationsSettled_def split: promise.splits)
qed

lemma run_pending:
  "pending (run tr c es) \<le> pending c + chatOpens tr (fst c) es"
proof (induction es arbitrary: c)
  case Nil
  show ?case by simp
next
  case (Cons e es)
  let ?n = "step tr (fst c) e"
  let ?c = "(fst ?n, snd c @ snd ?n)"
  have "pending ?c = snapshots (snd c) + pending ?n"
    by (simp add: pending_def snapshots_append)
  also have "\<dots> \<le> snapshots (snd c) + ((if hasMarkedAsReadRef (fst c) then 0 else 1)
      + (if opensChat (fst c) e then 1 else 0))"
    using step_pending [of tr "fst c" e] by simp
  also have "\<dots> = pending c + (if opensChat (fst c) e then 1 else 0)"
    by (simp add: pending_def)
  finally have s: "pending ?c \<le> pending c + (if opensChat (fst c) e then 1 else 0)" .
  have "pending (run tr c (e # es)) = pending (run tr ?c es)" by (simp add: Let_def)
  also have "\<dots> \<le> pending ?c + chatOpens tr (fst ?c) es" by (rule Cons.IH)
  also have "\<dots> \<le> pending c + chatOpens tr (fst c) (e # es)"
    using s by (cases "opensChat (fst c) e") simp_all
  finally show ?case .
qed

lemma mount_pending: "pending (mount chat user blocked enabled language ledger) = 1"
  by (simp add: mount_def runEffects_pending)

lemma step_keeps_guard:
  "hasMarkedAsReadRef s \<Longrightarrow> \<not> opensChat s e \<Longrightarrow> hasMarkedAsReadRef (fst (step tr s e))"
  by (cases e)
    (simp_all add: runEffects_ref handleToggleTranslation_def handleSaveTranslationSettings_def
      handleLanguageChange_def handleDeleteLocalMessage_def handleDeleteMessageForEveryone_def
      deletedForEveryone_def deleteForEveryoneFailed_def deliver_def translationsSettled_def Let_def
      split: option.splits promise.splits)

text \<open>
  Claim C8. Over any run of a mounted component, the snapshot request
  \<open>getUnreadMessages\<close> is made at most once for the mount and once more for each event
  that passes a chat id other than the current one; so in a run that opens no other chat
  it is made at most once. While the guard flag is up, an event that does not open
  another chat (a change of the translation flag, of the target language, of the block
  set, of the current user, a render with the same chat id, a delivery, a resolved call)
  leaves the flag up and makes no snapshot request; a render with the same chat id runs
  no effect at all.
\<close>

theorem snapshot_once_per_open:
  "snapshots (snd (run tr (mount chat user blocked enabled language ledger) es))
     \<le> 1 + chatOpens tr (fst (mount chat user blocked enabled language ledger)) es \<and>
   (chatOpens tr (fst (mount chat user blocked enabled language ledger)) es = 0 \<longrightarrow>
      snapshots (snd (run tr (mount chat user blocked enabled language ledger) es)) \<le> 1) \<and>
   (hasMarkedAsReadRef s \<and> \<not> opensChat s e \<longrightarrow>
      hasMarkedAsReadRef (fst (step tr s e)) \<and> snapshots (snd (step tr s e)) = 0) \<and>
   (c = chatId s \<longrightarrow> step tr s (ChatIdChanged c) = (s, []))"
proof -
  let ?m = "mount chat user blocked enabled language ledger"
  have "snapshots (snd (run tr ?m es)) \<le> pending (run tr ?m es)"
    by (simp add: pending_def)
  also have "\<dots> \<le> pending ?m + chatOpens tr (fst ?m) es" by (rule run_pending)
  finally have a: "snapshots (snd (run tr ?m es)) \<le> 1 + chatOpens tr (fst ?m) es"
    by (simp add: mount_pending)
  then have b: "snapshots (snd (run tr ?m es)) \<le> 1" if "chatOpens tr (fst ?m) es = 0"
    using that by simp
  have c: "hasMarkedAsReadRef (fst (step tr s e)) \<and> snapshots (snd (step tr s e)) = 0"
    if h: "hasMarkedAsReadRef s \<and> \<not> opensChat s e"
  proof -
    from h have g: "hasMarkedAsReadRef (fst (step tr s e))" by (simp add: step_keeps_guard)
    from step_pending [of tr s e] h have "pending (step tr s e) = 0" by simp
    then have "snapshots (snd (step tr s e)) = 0" by (simp add: pending_def)
    with g show ?thesis by simp
  qed
  have d: "step tr s (ChatIdChanged c) = (s, [])" if "c = chatId s"
    using that by (simp add: runEffects_def)
  from a b c d show ?thesis by blast
qed

text \<open>
  A mount followed by loaded settings, a render with the same chat id, a new block set, a
  language change and a toggle: the subscription effect runs five times and the snapshot
  is requested once. A mount followed by another chat id passed twice: one open, and two
  snapshots in all.
\<close>

theorem snapshot_once_per_open_witness:
  "chatOpens exampleTranslate
     (fst (mount ''c1'' (Some (exampleUser ''alice'')) {} False ''en'' (\<lambda>c. {})))
     [SettingsLoaded True ''es'', ChatIdChanged ''c1'', BlockedUsersChanged {''carol''},
      LanguageChange ''fr'', ToggleTranslation] = 0 \<and>
   snapshots (snd (run exampleTranslate
      (mount ''c1'' (Some (exampleUser ''alice'')) {} False ''en'' (\<lambda>c. {}))
      [SettingsLoaded True ''es'', ChatIdChanged ''c1'', BlockedUsersChanged {''carol''},
       LanguageChange ''fr'', ToggleTranslation])) \<le> 1 \<and>
   snd (run exampleTranslate
      (mount ''c1'' (Some (exampleUser ''alice'')) {} False ''en'' (\<lambda>c. {}))
      [SettingsLoaded True ''es'', ChatIdChanged ''c1'', BlockedUsersChanged {''carol''},
       LanguageChange ''fr'', ToggleTranslation])
     = [GetUnreadMessages ''c1'' ''alice'', GetChatMessages ''c1'', MarkMessagesAsRead ''c1'' ''alice'',
        Unsubscribe, GetChatMessages ''c1'',
        Unsubscribe, GetChatMessages ''c1'',
        SetSettings ''c1'' True ''fr'', UpdateTranslationSettings ''c1'' ''alice'' True ''fr'',
        Unsubscribe, GetChatMessages ''c1'',
        UpdateTranslationSettings ''c1'' ''alice'' False ''fr'',
        Unsubscribe, GetChatMessages ''c1''] \<and>
   chatOpens exampleTranslate
     (fst (mount ''c1'' (Some (exampleUser ''alice'')) {} False ''en'' (\<lambda>c. {})))
     [ChatIdChanged ''c2'', ChatIdChanged ''c2''] = 1 \<and>
   snapshots (snd (run exampleTranslate
      (mount ''c1'' (Some (exampleUser ''alice'')) {} False ''en'' (\<lambda>c. {}))
      [ChatIdChanged ''c2'', ChatIdChanged ''c2''])) = 2"
proof -
  let ?m = "mount ''c1'' (Some (exampleUser ''alice'')) {} False ''en'' (\<lambda>c. {})"
  let ?es = "[SettingsLoaded True ''es'', ChatIdChanged ''c1'', BlockedUsersChanged {''carol''},
      LanguageChange ''fr'', ToggleTranslation]"
  have n: "chatOpens exampleTranslate (fst ?m) ?es = 0"
    by (simp add: machine_eval)
  from snapshot_once_per_open
    [where tr = exampleTranslate and chat = "''c1''" and user = "Some (exampleUser ''alice'')"
       and blocked = "{}" and enabled = False and language = "''en''" and ledger = "\<lambda>c. {}"
       and es = ?es] n
  have a: "snapshots (snd (run exampleTranslate ?m ?es)) \<le> 1"
    by blast
  have b: "snd (run exampleTranslate ?m ?es)
     = [GetUnreadMessages ''c1'' ''alice'', GetChatMessages ''c1'', MarkMessagesAsRead ''c1'' ''alice'',
        Unsubscribe, GetChatMessages ''c1'',
        Unsubscribe, GetChatMessages ''c1'',
        SetSettings ''c1'' True ''fr'', UpdateTranslationSettings ''c1'' ''alice'' True ''fr'',
        Unsubscribe, GetChatMessages ''c1'',
        UpdateTranslationSettings ''c1'' ''alice'' False ''fr'',
        Unsubscribe, GetChatMessages ''c1'']"
    by (simp add: machine_eval)
  have c: "chatOpens exampleTranslate (fst ?m) [ChatIdChanged ''c2'', ChatIdChanged ''c2''] = 1"
    by (simp add: machine_eval)
  have d: "snapshots (snd (run exampleTranslate ?m [ChatIdChanged ''c2'', ChatIdChanged ''c2''])) = 2"
    by (simp add: machine_eval snapshots_def)
  from n a b c d show ?thesis by blast
qed

subsection \<open>The unread marker over time\<close>






subsection \<open>Toggling translation off\<close>

lemma toggle_keeps_messages:
  "messages (fst (handleToggleTranslation s)) = messages s \<and>
   inFlight (fst (handleToggleTranslation s)) = inFlight s"
  by (simp add: handleToggleTranslation_def runEffects_def subscriptionCleanup_def
      subscriptionEffect_def Let_def split: option.splits)

lemma toggle_closure:
  assumes "translationEnabled s"
  shows "\<not> translationEnabled (fst (handleToggleTranslation s)) \<and>
     deletionLedger (fst (handleToggleTranslation s)) = deletionLedger s \<and>
     subscription (fst (handleToggleTranslation s)) =
       (case currentUser s of
          None \<Rightarrow> None
        | Some u \<Rightarrow>
            if chatId s = [] then None
            else Some \<lparr>closed_chatId = chatId s, closed_blockedUsers = blockedUsers s,
                       closed_translationEnabled = False,
                       closed_targetLanguage = targetLanguage s, closed_currentUser = u\<rparr>)"
  using assms
  by (simp add: handleToggleTranslation_def runEffects_def subscriptionCleanup_def
      subscriptionEffect_def Let_def split: option.splits)

text \<open>
  Claim C6, as amended. Toggling translation changes neither the message list nor the
  runs in flight: every message keeps the translated text it carried. Toggling it off
  turns the flag off and re-subscribes with a callback that has translation off, so the
  next delivery replaces the list by the delivered messages that are neither deleted nor
  blocked, as delivered, with no translation attached. A run of the old callback that was
  in flight at the toggle is not cancelled: when it settles, its translated batch becomes
  the message list.
\<close>

theorem toggle_off_keeps_translations_until_delivery:
  "messages (fst (step tr s ToggleTranslation)) = messages s \<and>
   inFlight (fst (step tr s ToggleTranslation)) = inFlight s \<and>
   (translationEnabled s \<longrightarrow>
      \<not> translationEnabled (fst (step tr s ToggleTranslation)) \<and>
      (\<forall>c. subscription (fst (step tr s ToggleTranslation)) = Some c \<longrightarrow>
           \<not> closed_translationEnabled c)) \<and>
   (translationEnabled s \<and> currentUser s = Some u \<and> chatId s \<noteq> [] \<longrightarrow>
      messages (fst (step tr (fst (step tr s ToggleTranslation)) (Delivery fetched)))
        = filter (keepMessage (getDeletedMessagesForChat (deletionLedger s) (chatId s))
                    (blockedUsers s)) fetched) \<and>
   (k < length (inFlight s) \<and> inFlight s ! k = Resolved batch \<longrightarrow>
      messages (fst (step tr (fst (step tr s ToggleTranslation)) (TranslationsSettled k))) = batch)"
proof (intro conjI impI allI)
  show "messages (fst (step tr s ToggleTranslation)) = messages s"
    by (simp add: toggle_keeps_messages)
next
  show "inFlight (fst (step tr s ToggleTranslation)) = inFlight s"
    by (simp add: toggle_keeps_messages)
next
  assume "translationEnabled s"
  then show "\<not> translationEnabled (fst (step tr s ToggleTranslation))"
    by (simp add: toggle_closure)
next
  fix c
  assume "translationEnabled s" "subscription (fst (step tr s ToggleTranslation)) = Some c"
  then show "\<not> closed_translationEnabled c"
    by (auto simp: toggle_closure split: option.splits if_splits)
next
  assume a: "translationEnabled s \<and> currentUser s = Some u \<and> chatId s \<noteq> []"
  then have t: "translationEnabled s" by simp
  note c = toggle_closure [OF t]
  from a c have sub: "subscription (fst (handleToggleTranslation s)) =
      Some \<lparr>closed_chatId = chatId s, closed_blockedUsers = blockedUsers s,
            closed_translationEnabled = False,
            closed_targetLanguage = targetLanguage s, closed_currentUser = u\<rparr>"
    by simp
  from c have led: "deletionLedger (fst (handleToggleTranslation s)) = deletionLedger s"
    by simp
  show "messages (fst (step tr (fst (step tr s ToggleTranslation)) (Delivery fetched)))
        = filter (keepMessage (getDeletedMessagesForChat (deletionLedger s) (chatId s))
                    (blockedUsers s)) fetched"
    by (simp add: deliver_def sub led onMessages_off)
next
  assume "k < length (inFlight s) \<and> inFlight s ! k = Resolved batch"
  then show "messages (fst (step tr (fst (step tr s ToggleTranslation)) (TranslationsSettled k))) = batch"
    by (simp add: settle_messages toggle_keeps_messages)
qed

text \<open>
  The translated window: \<open>Hello\<close> is still attached right after the toggle, and gone
  after the next delivery of the same history.
\<close>

theorem toggle_off_keeps_translations_until_delivery_witness:
  "translationEnabled exampleTranslatedWindow \<and>
   currentUser exampleTranslatedWindow = Some (exampleUser ''alice'') \<and>
   chatId exampleTranslatedWindow \<noteq> [] \<and>
   map translatedText (messages exampleTranslatedWindow) = [Some ''Hello'', None] \<and>
   map translatedText (messages (fst (step exampleTranslate exampleTranslatedWindow ToggleTranslation)))
     = [Some ''Hello'', None] \<and>
   \<not> translationEnabled (fst (step exampleTranslate exampleTranslatedWindow ToggleTranslation)) \<and>
   map translatedText
     (messages (fst (step exampleTranslate
        (fst (step exampleTranslate exampleTranslatedWindow ToggleTranslation))
        (Delivery [exampleMessage ''m1'' ''bob'' ''Hola'' (exampleDate 1 100),
                   exampleMessage ''m3'' ''alice'' ''Bien'' (exampleDate 2 50)]))))
     = [None, None]"
proof -
  let ?w = exampleTranslatedWindow
  let ?fetched = "[exampleMessage ''m1'' ''bob'' ''Hola'' (exampleDate 1 100),
                   exampleMessage ''m3'' ''alice'' ''Bien'' (exampleDate 2 50)]"
  note t = toggle_off_keeps_translations_until_delivery
    [where tr = exampleTranslate and s = ?w and u = "exampleUser ''alice''" and fetched = ?fetched]
  have a: "translationEnabled ?w" "currentUser ?w = Some (exampleUser ''alice'')" "chatId ?w \<noteq> []"
    by (simp_all add: exampleTranslatedWindow_eq)
  have w: "map translatedText (messages ?w) = [Some ''Hello'', None]"
    by (simp add: exampleTranslatedWindow_eq exampleMessage_def)
  from t [THEN conjunct1] w
  have m: "map translatedText (messages (fst (step exampleTranslate ?w ToggleTranslation)))
     = [Some ''Hello'', None]"
    by simp
  from t a have e: "\<not> translationEnabled (fst (step exampleTranslate ?w ToggleTranslation))"
    by blast
  have f: "filter (keepMessage (getDeletedMessagesForChat (deletionLedger ?w) (chatId ?w))
      (blockedUsers ?w)) ?fetched = ?fetched"
    by (simp add: keepMessage_def getDeletedMessagesForChat_def exampleTranslatedWindow_eq)
  from t a have "messages (fst (step exampleTranslate
      (fst (step exampleTranslate ?w ToggleTranslation)) (Delivery ?fetched)))
     = filter (keepMessage (getDeletedMessagesForChat (deletionLedger ?w) (chatId ?w))
      (blockedUsers ?w)) ?fetched"
    by blast
  then have d: "map translatedText (messages (fst (step exampleTranslate
      (fst (step exampleTranslate ?w ToggleTranslation)) (Delivery ?fetched)))) = [None, None]"
    unfolding f by (simp add: exampleMessage_def)
  from a w m e d show ?thesis by blast
qed

text \<open>
  Claim C6 as stated fails on the run: \<open>Hola\<close> delivered and translated, translation
  toggled off, the history delivered again. The message carries \<open>Hello\<close> before the
  toggle and no translated text after the redelivery.
\<close>

theorem toggle_off_counter_run:
  "map translatedText (messages (fst (run exampleTranslate
       (mount ''c1'' (Some (exampleUser ''alice'')) {} True ''en'' (\<lambda>c. {}))
       [Delivery [exampleMessage ''m1'' ''bob'' ''Hola'' (exampleDate 1 100)],
        TranslationsSettled 0])))
     = [Some ''Hello''] \<and>
   map translatedText (messages (fst (run exampleTranslate
       (mount ''c1'' (Some (exampleUser ''alice'')) {} True ''en'' (\<lambda>c. {}))
       [Delivery [exampleMessage ''m1'' ''bob'' ''Hola'' (exampleDate 1 100)],
        TranslationsSettled 0,
        ToggleTranslation,
        Delivery [exampleMessage ''m1'' ''bob'' ''Hola'' (exampleDate 1 100)]])))
     = [None]"
  by (simp add: machine_eval exampleMessage_def)

end
